theory Spec2Isabelle
  imports Main "HOL-Library.AList" "HOL-Library.Sublist"
begin

section \<open>Python strings\<close>

text \<open>
  A Python \<open>str\<close> is modelled as a \<open>string\<close> whose characters are the code points
  below 256. On that range \<open>str.isspace\<close>, \<open>str.lower\<close> and the digit class of
  \<open>re\<close> are the functions below.
\<close>

definition is_space :: "char \<Rightarrow> bool" where
  "is_space c =
     (let n = (of_char c :: nat)
      in (9 \<le> n \<and> n \<le> 13) \<or> (28 \<le> n \<and> n \<le> 32) \<or> n = 133 \<or> n = 160)"

definition is_digit :: "char \<Rightarrow> bool" where
  "is_digit c = (let n = (of_char c :: nat) in 48 \<le> n \<and> n \<le> 57)"

definition lower_char :: "char \<Rightarrow> char" where
  "lower_char c =
     (let n = (of_char c :: nat)
      in if (65 \<le> n \<and> n \<le> 90) \<or> (192 \<le> n \<and> n \<le> 222 \<and> n \<noteq> 215)
         then char_of (n + 32) else c)"

text \<open>\<open>s.lower()\<close>\<close>

definition lower :: "string \<Rightarrow> string" where
  "lower s = map lower_char s"

text \<open>\<open>s.strip()\<close>: leading and trailing whitespace removed, the inside untouched.\<close>

definition strip :: "string \<Rightarrow> string" where
  "strip s = rev (dropWhile is_space (rev (dropWhile is_space s)))"

text \<open>
  \<open>s.split()\<close>: the maximal runs of non-whitespace characters, in order. The second
  argument is the token being read, reversed.
\<close>

fun split_acc :: "string \<Rightarrow> string \<Rightarrow> string list" where
  "split_acc [] cur = (if cur = [] then [] else [rev cur])"
| "split_acc (c # cs) cur =
     (if is_space c
      then (if cur = [] then split_acc cs [] else rev cur # split_acc cs [])
      else split_acc cs (c # cur))"

definition split :: "string \<Rightarrow> string list" where
  "split s = split_acc s []"

text \<open>\<open>sep.join(xs)\<close>\<close>

fun join :: "string \<Rightarrow> string list \<Rightarrow> string" where
  "join sep [] = []"
| "join sep [x] = x"
| "join sep (x # y # ys) = x @ sep @ join sep (y # ys)"

text \<open>\<open>pat in s\<close>\<close>

fun contains :: "string \<Rightarrow> string \<Rightarrow> bool" where
  "contains pat [] = (pat = [])"
| "contains pat (c # cs) = (prefix pat (c # cs) \<or> contains pat cs)"

section \<open>Identity normalizer\<close>

text \<open>
  \<open>JailAPIClient._normalize_name\<close>: the parts are \<open>last\<close>, \<open>first\<close> and, when it is
  not the empty string, \<open>middle\<close>; the empty parts are left out, each remaining part is
  lowercased and stripped, and the results are joined with one space.
\<close>

definition normalize_name :: "string \<Rightarrow> string \<Rightarrow> string \<Rightarrow> string" where
  "normalize_name last_n first_n middle =
     (let parts = [last_n, first_n] @ (if middle \<noteq> [] then [middle] else [])
      in join '' '' (map (\<lambda>p. strip (lower p)) (filter (\<lambda>p. p \<noteq> []) parts)))"

text \<open>
  Whitespace collapsing as the data model of the specification words it: every run of
  whitespace becomes one space and the surrounding whitespace goes. The source has no
  such function; it is here to state what \<open>normalize_name\<close> does not do.
\<close>

definition collapse_whitespace :: "string \<Rightarrow> string" where
  "collapse_whitespace s = join '' '' (split s)"

section \<open>Roster records and page extraction\<close>

text \<open>A raised Python exception, with the text \<open>str(e)\<close> gives for it.\<close>

datatype py_exception = PyException string

fun exception_str :: "py_exception \<Rightarrow> string" where
  "exception_str (PyException msg) = msg"

text \<open>The dictionary \<open>inmate_data\<close> that \<open>_fetch_single_page\<close> builds for a booking card.\<close>

record inmate_data =
  full_name :: string
  first_name :: string
  middle_name :: string
  last_name :: string
  booking_date :: "string option"
  arrest_datetime :: "string option"
  arresting_agency :: "string option"
  bond_amount :: "string option"
  charges :: "string option"
  mugshot_url :: "string option"
  booking_number :: "string option"

text \<open>
  A Python \<open>dict\<close> from name keys to inmate data, as an association list in insertion
  order: \<open>d[k] = v\<close> is \<open>AList.update k v d\<close>, \<open>k in d\<close> is \<open>map_of d k \<noteq> None\<close>,
  and \<open>d\<close> is falsy exactly when it is \<open>[]\<close>.
\<close>

type_synonym roster = "(string \<times> inmate_data) list"

text \<open>
  What the parsed markup of one \<open>div.booking-card\<close> answers to the queries of
  \<open>_fetch_single_page\<close>: the text of its first \<open>h5\<close> (\<open>None\<close> when there is none); for
  every \<open>div.detail-row\<close> the texts of its \<open>span.detail-label\<close> and \<open>span.detail-value\<close>;
  for every \<open>div.charge-item\<close> its \<open>div.charge-details\<close> (\<open>None\<close> when absent) and in
  it the text of the first \<open>div\<close> (\<open>None\<close> when absent); the \<open>src\<close> of the first
  \<open>img.booking-mugshot\<close>; the \<open>href\<close> values of its links, in document order.
\<close>

record booking_card =
  h5 :: "string option"
  detail_rows :: "(string option \<times> string option) list"
  charge_items :: "string option option list"
  booking_mugshot :: "string option option"
  hrefs :: "string list"

text \<open>
  A block of the page: a card as above, or a block on which a call inside the
  \<open>try\<close> of the card loop raises.
\<close>

datatype card = Card booking_card | Raising py_exception

text \<open>
  One turn of the loop over the detail rows; the state is the four variables it assigns:
  \<open>booking_date\<close>, \<open>arrest_datetime\<close>, \<open>arresting_agency\<close>, \<open>bond_amount\<close>.
\<close>

fun detail_row_step ::
  "(string option \<times> string option) \<Rightarrow>
   (string option \<times> string option \<times> string option \<times> string option) \<Rightarrow>
   (string option \<times> string option \<times> string option \<times> string option)" where
  "detail_row_step (Some label_text, Some value_text) (bdate, adt, agency, bond) =
     (let label = strip label_text; val = strip value_text
      in if contains ''Booked:'' label then (Some val, adt, agency, bond)
         else if contains ''Arrest Date/Time:'' label then (bdate, Some val, agency, bond)
         else if contains ''Arresting Agency:'' label then (bdate, adt, Some val, bond)
         else if contains ''Bond Total:'' label then (bdate, adt, agency, Some val)
         else (bdate, adt, agency, bond))"
| "detail_row_step _ assigned = assigned"

text \<open>The texts appended to \<open>charges_list\<close>.\<close>

fun charge_texts :: "string option option list \<Rightarrow> string list" where
  "charge_texts [] = []"
| "charge_texts (Some (Some charge_text) # items) = strip charge_text # charge_texts items"
| "charge_texts (_ # items) = charge_texts items"

text \<open>
  \<open>re.search(r'BookingID=(\d+)', href)\<close>, group 1: the digits after the leftmost
  \<open>BookingID=\<close> that is followed by a digit.
\<close>

fun booking_match :: "string \<Rightarrow> string option" where
  "booking_match [] = None"
| "booking_match (c # cs) =
     (if prefix ''BookingID='' (c # cs) \<and> takeWhile is_digit (drop 10 (c # cs)) \<noteq> []
      then Some (takeWhile is_digit (drop 10 (c # cs)))
      else booking_match cs)"

text \<open>
  The body of the \<open>try\<close> for one card: \<open>None\<close> is \<open>continue\<close> (no header, or fewer
  than two name parts), otherwise the two lookup keys and the inmate data.
\<close>

definition parse_card :: "booking_card \<Rightarrow> (string list \<times> inmate_data) option" where
  "parse_card c =
     (case h5 c of
        None \<Rightarrow> None
      | Some header \<Rightarrow>
          (let full = strip header;
               name_parts = split full
           in if length name_parts < 2 then None
              else
                (let first = hd name_parts;
                     lastn = last name_parts;
                     middle = (if length name_parts > 2
                               then join '' '' (tl (butlast name_parts)) else []);
                     (bdate, adt, agency, bond) =
                        fold detail_row_step (detail_rows c) (None, None, None, None);
                     charges_list = charge_texts (charge_items c);
                     chs = (if charges_list \<noteq> [] then Some (join ''; '' charges_list) else None);
                     mug = (case booking_mugshot c of None \<Rightarrow> None | Some src \<Rightarrow> src);
                     bnum = (case find (contains ''BookingID='') (hrefs c) of
                               None \<Rightarrow> None
                             | Some href \<Rightarrow> booking_match href);
                     keys = [normalize_name lastn first middle,
                             normalize_name lastn first []]
                 in Some (keys,
                      \<lparr> full_name = full, first_name = first, middle_name = middle,
                        last_name = lastn, booking_date = bdate, arrest_datetime = adt,
                        arresting_agency = agency, bond_amount = bond, charges = chs,
                        mugshot_url = mug, booking_number = bnum \<rparr>))))"

text \<open>One turn of the card loop: a card that raises or is dropped leaves \<open>inmates\<close> as it is.\<close>

fun card_step :: "card \<Rightarrow> roster \<Rightarrow> roster" where
  "card_step (Raising e) inmates = inmates"
| "card_step (Card c) inmates =
     (case parse_card c of
        None \<Rightarrow> inmates
      | Some (keys, inmate) \<Rightarrow> fold (\<lambda>key. AList.update key inmate) keys inmates)"

text \<open>
  An HTTP response: its status, its \<open>Retry-After\<close> header (\<open>None\<close> when it has none,
  otherwise the seconds the header asks to wait), and the booking cards its markup
  parses into.
\<close>

record response =
  status_code :: nat
  retry_after :: "nat option"
  booking_cards :: "card list"

text \<open>\<open>_fetch_single_page\<close> from the status check on.\<close>

definition parse_response :: "response \<Rightarrow> roster" where
  "parse_response resp =
     (if status_code resp \<noteq> 200 then []
      else if booking_cards resp = [] then []
      else fold card_step (booking_cards resp) [])"

section \<open>Transport with retries\<close>

text \<open>
  The \<open>Retry\<close> object that \<open>JailAPIClient.__init__\<close> mounts on the session: the
  values are those of the source, with \<open>total\<close> the constructor's \<open>max_retries\<close>.
\<close>

record retry =
  total :: nat
  status_forcelist :: "nat list"
  allowed_methods :: "string list"
  backoff_factor :: nat

definition retry_strategy :: "nat \<Rightarrow> retry" where
  "retry_strategy max_retries =
     \<lparr> total = max_retries,
       status_forcelist = [429, 502, 503, 504],
       allowed_methods = [''HEAD'', ''GET'', ''POST'', ''OPTIONS''],
       backoff_factor = 2 \<rparr>"

text \<open>
  The retry loop itself belongs to the HTTP library (urllib3), not to this repository.
  The definitions from \<open>is_method_retryable\<close> to \<open>urlopen\<close> follow the library's
  documented behaviour for a \<open>Retry\<close> built with the four arguments above.

  One attempt of a request times out while connecting, times out while reading, or gets
  a response.
\<close>

datatype attempt = ConnectTimeout | ReadTimeout | Responds response

text \<open>\<open>method.upper()\<close>, for the ASCII letters an HTTP method is written in.\<close>

definition upper_char :: "char \<Rightarrow> char" where
  "upper_char c =
     (let n = (of_char c :: nat)
      in if 97 \<le> n \<and> n \<le> 122 then char_of (n - 32) else c)"

definition upper :: "string \<Rightarrow> string" where
  "upper s = map upper_char s"

text \<open>
  A method is retryable when the list of allowed methods is empty or holds the method
  in upper case.
\<close>

definition is_method_retryable :: "retry \<Rightarrow> string \<Rightarrow> bool" where
  "is_method_retryable r method =
     (allowed_methods r = [] \<or> upper method \<in> set (allowed_methods r))"

text \<open>\<open>bool(response.headers.get("Retry-After"))\<close>\<close>

definition has_retry_after :: "response \<Rightarrow> bool" where
  "has_retry_after resp = (retry_after resp \<noteq> None)"

text \<open>
  Whether a response is retried, with \<open>remaining\<close> retries left: the method is
  retryable and the status is in the force list, or retries are left and the response
  carries \<open>Retry-After\<close> with one of the statuses 413, 429, 503.
\<close>

definition is_retry :: "retry \<Rightarrow> nat \<Rightarrow> string \<Rightarrow> response \<Rightarrow> bool" where
  "is_retry r remaining method resp =
     (is_method_retryable r method \<and>
      (status_code resp \<in> set (status_forcelist r) \<or>
       (remaining \<noteq> 0 \<and> has_retry_after resp \<and> status_code resp \<in> set [413, 429, 503])))"

text \<open>
  The backoff in seconds after \<open>n\<close> consecutive failed attempts: nothing after the
  first, then \<open>backoff_factor * 2 ^ (n - 1)\<close>, at most 120.
\<close>

definition get_backoff_time :: "retry \<Rightarrow> nat \<Rightarrow> nat" where
  "get_backoff_time r n = (if n \<le> 1 then 0 else min 120 (backoff_factor r * 2 ^ (n - 1)))"

text \<open>
  The seconds slept before the next attempt, after \<open>n\<close> failed attempts of which the
  last is \<open>a\<close>: what a response's \<open>Retry-After\<close> asks for when that is not zero,
  otherwise the backoff.
\<close>

fun retry_sleep :: "retry \<Rightarrow> nat \<Rightarrow> attempt \<Rightarrow> nat" where
  "retry_sleep r n (Responds resp) =
     (case retry_after resp of
        Some seconds \<Rightarrow> if seconds \<noteq> 0 then seconds else get_backoff_time r n
      | None \<Rightarrow> get_backoff_time r n)"
| "retry_sleep r n a = get_backoff_time r n"

text \<open>The result of the attempts that follow a sleep of \<open>seconds\<close>.\<close>

fun after_sleep ::
  "nat \<Rightarrow> (py_exception + response) \<times> nat \<times> nat list \<Rightarrow>
   (py_exception + response) \<times> nat \<times> nat list" where
  "after_sleep seconds (outcome, attempts, sleeps) = (outcome, attempts, seconds # sleeps)"

text \<open>
  A request through the session. \<open>server k\<close> is the outcome of attempt number \<open>k\<close>
  (from 0). The result is the exception raised or the response returned, the number
  of attempts made, and the sleeps between them. A failed attempt is repeated, after
  the sleep, while retries remain; when none remains, the timeout or the retry error is
  raised. A read timeout is only retried for a retryable method.
\<close>

fun urlopen ::
  "retry \<Rightarrow> string \<Rightarrow> (nat \<Rightarrow> attempt) \<Rightarrow> nat \<Rightarrow> nat \<Rightarrow>
   (py_exception + response) \<times> nat \<times> nat list" where
  "urlopen r method server k 0 =
     (case server k of
        ConnectTimeout \<Rightarrow> (Inl (PyException ''ConnectTimeout''), Suc k, [])
      | ReadTimeout \<Rightarrow> (Inl (PyException ''ReadTimeout''), Suc k, [])
      | Responds resp \<Rightarrow>
          if is_retry r 0 method resp
          then (Inl (PyException ''RetryError''), Suc k, [])
          else (Inr resp, Suc k, []))"
| "urlopen r method server k (Suc remaining) =
     (case server k of
        ConnectTimeout \<Rightarrow>
          after_sleep (retry_sleep r (Suc k) ConnectTimeout)
            (urlopen r method server (Suc k) remaining)
      | ReadTimeout \<Rightarrow>
          if is_method_retryable r method
          then after_sleep (retry_sleep r (Suc k) ReadTimeout)
                 (urlopen r method server (Suc k) remaining)
          else (Inl (PyException ''ReadTimeout''), Suc k, [])
      | Responds resp \<Rightarrow>
          if is_retry r (Suc remaining) method resp
          then after_sleep (retry_sleep r (Suc k) (Responds resp))
                 (urlopen r method server (Suc k) remaining)
          else (Inr resp, Suc k, []))"

definition session_post ::
  "retry \<Rightarrow> (nat \<Rightarrow> attempt) \<Rightarrow> (py_exception + response) \<times> nat \<times> nat list" where
  "session_post r server = urlopen r ''POST'' server 0 (total r)"

section \<open>Roster acquirer\<close>

text \<open>
  What the outside does during one call into the client: whether the GET of the main
  page raises; for every page index the outcomes of the successive attempts of its
  POST; and, for every batch number, the order in which the batch's futures complete
  (read by \<open>as_completed\<close> below).
\<close>

record world =
  main_page :: "py_exception option"
  confinements :: "nat \<Rightarrow> nat \<Rightarrow> attempt"
  completion :: "nat \<Rightarrow> nat list"

text \<open>
  The fields of \<open>JailAPIClient\<close> that decide what is returned. \<open>delay_seconds\<close> and
  \<open>last_request_time\<close> only decide when requests are sent; they are the state of the
  rate limiter, modelled on its own below. \<open>timeout\<close> is not modelled.
\<close>

record client =
  max_retries :: nat
  current_inmates :: "roster option"
  session_initialized :: bool

text \<open>\<open>JailAPIClient()\<close> with the given \<open>max_retries\<close>.\<close>

definition new_client :: "nat \<Rightarrow> client" where
  "new_client n = \<lparr> max_retries = n, current_inmates = None, session_initialized = False \<rparr>"

text \<open>The requests a call sends, in the order of the calls that send them.\<close>

datatype request = Get_main_page | Post_confinements nat

text \<open>
  \<open>_ensure_session_initialized\<close>: nothing when the flag is set; otherwise one GET, whose
  exception is raised again, and the flag is set when it returns.
\<close>

definition ensure_session_initialized ::
  "world \<Rightarrow> client \<Rightarrow> py_exception option \<times> client \<times> request list" where
  "ensure_session_initialized w c =
     (if session_initialized c then (None, c, [])
      else (case main_page w of
              Some e \<Rightarrow> (Some e, c, [Get_main_page])
            | None \<Rightarrow> (None, c\<lparr>session_initialized := True\<rparr>, [Get_main_page])))"

text \<open>\<open>_fetch_single_page\<close>: an exception of the POST is not caught here.\<close>

definition fetch_single_page :: "client \<Rightarrow> world \<Rightarrow> nat \<Rightarrow> py_exception + roster" where
  "fetch_single_page c w page_idx =
     (case fst (session_post (retry_strategy (max_retries c)) (confinements w page_idx)) of
        Inl e \<Rightarrow> Inl e
      | Inr resp \<Rightarrow> Inr (parse_response resp))"

text \<open>
  \<open>as_completed\<close>: the futures in the order they complete. Each pick selects, modulo
  the number of futures still running, the next one to complete; when the picks run
  out the rest completes in submission order. Every order of completion is the result
  of some picks.
\<close>

fun as_completed :: "nat list \<Rightarrow> 'a list \<Rightarrow> 'a list" where
  "as_completed picks [] = []"
| "as_completed [] futures = futures"
| "as_completed (k # picks) (f # fs) =
     (f # fs) ! (k mod length (f # fs)) #
       as_completed picks
         (take (k mod length (f # fs)) (f # fs) @ drop (Suc (k mod length (f # fs))) (f # fs))"

definition batch_size :: nat where
  "batch_size = 20"

definition max_batches :: nat where
  "max_batches = 3"

text \<open>
  The body of the loop over the completed futures; the state is \<open>inmates\<close>,
  \<open>empty_pages\<close> and \<open>pages_with_data\<close>.
\<close>

fun collect ::
  "nat \<times> (py_exception + roster) \<Rightarrow> roster \<times> nat \<times> nat \<Rightarrow> roster \<times> nat \<times> nat" where
  "collect (page_idx, Inr page_inmates) (inmates, empty_pages, pages_with_data) =
     (if page_inmates \<noteq> []
      then (fold (\<lambda>(key, inmate). AList.update key inmate) page_inmates inmates,
            empty_pages, pages_with_data + 1)
      else (inmates, empty_pages + 1, pages_with_data))"
| "collect (page_idx, Inl e) (inmates, empty_pages, pages_with_data) =
     (inmates, empty_pages + 1, pages_with_data)"

text \<open>
  The loop \<open>for batch_num in range(max_batches)\<close>, over the batch numbers still to
  run. The result is \<open>inmates\<close>, \<open>current_batch_start\<close> and the batches submitted, each
  the list of its page indices.
\<close>

fun fetch_batches ::
  "client \<Rightarrow> world \<Rightarrow> nat list \<Rightarrow> nat \<Rightarrow> roster \<Rightarrow> roster \<times> nat \<times> nat list list" where
  "fetch_batches c w [] current_batch_start inmates = (inmates, current_batch_start, [])"
| "fetch_batches c w (batch_num # rest) current_batch_start inmates =
     (let pages = [current_batch_start ..< current_batch_start + batch_size];
          future_to_page = map (\<lambda>page_idx. (page_idx, fetch_single_page c w page_idx)) pages;
          (inmates', empty_pages, pages_with_data) =
             fold collect (as_completed (completion w batch_num) future_to_page) (inmates, 0, 0)
      in if empty_pages = batch_size then (inmates', current_batch_start, [pages])
         else (let (result, start, batches) =
                     fetch_batches c w rest (current_batch_start + batch_size) inmates'
               in (result, start, pages # batches)))"

text \<open>
  \<open>_fetch_current_confinements\<close>: the value returned or the exception raised, the
  client afterwards, and the requests sent.
\<close>

definition fetch_current_confinements ::
  "world \<Rightarrow> client \<Rightarrow> (py_exception + roster) \<times> client \<times> request list" where
  "fetch_current_confinements w c =
     (case current_inmates c of
        Some cached \<Rightarrow> (Inr cached, c, [])
      | None \<Rightarrow>
          (case ensure_session_initialized w c of
             (Some e, c1, sent) \<Rightarrow> (Inl e, c1, sent)
           | (None, c1, sent) \<Rightarrow>
               (let (inmates, start, batches) = fetch_batches c1 w [0 ..< max_batches] 1 []
                in (Inr inmates, c1\<lparr>current_inmates := Some inmates\<rparr>,
                    sent @ map Post_confinements (concat batches)))))"

section \<open>Custody matcher\<close>

text \<open>
  The fields of \<open>Defendant\<close> that the matcher reads. The validator of the model makes
  \<open>last_name\<close> and \<open>first_name\<close> stripped and not empty.
\<close>

record defendant =
  last_name :: string
  first_name :: string
  middle_name :: "string option"
  matter_number :: "string option"
  case_number :: "string option"

definition valid_defendant :: "defendant \<Rightarrow> bool" where
  "valid_defendant d =
     (defendant.last_name d \<noteq> [] \<and> strip (defendant.last_name d) = defendant.last_name d \<and>
      defendant.first_name d \<noteq> [] \<and> strip (defendant.first_name d) = defendant.first_name d)"

text \<open>The property \<open>Defendant.full_name\<close>.\<close>

definition defendant_full_name :: "defendant \<Rightarrow> string" where
  "defendant_full_name d =
     (case defendant.middle_name d of
        None \<Rightarrow> defendant.last_name d @ '', '' @ defendant.first_name d
      | Some m \<Rightarrow>
          if m \<noteq> []
          then defendant.last_name d @ '', '' @ defendant.first_name d @ '' '' @ m
          else defendant.last_name d @ '', '' @ defendant.first_name d)"

text \<open>\<open>Defendant.search_name\<close>: first, middle or the empty string, last.\<close>

definition search_name :: "defendant \<Rightarrow> string \<times> string \<times> string" where
  "search_name d =
     (defendant.first_name d,
      (case defendant.middle_name d of None \<Rightarrow> [] | Some m \<Rightarrow> m),
      defendant.last_name d)"

text \<open>
  \<open>CustodyResult\<close>, without \<open>query_timestamp\<close> (the time of construction). A field the
  constructor is not given is \<open>None\<close>.
\<close>

record custody_result =
  defendant_name :: string
  matter_number :: "string option"
  case_number :: "string option"
  in_custody :: bool
  booking_number :: "string option"
  booking_date :: "string option"
  custody_location :: "string option"
  charges_at_booking :: "string option"
  bond_amount :: "string option"
  mugshot_url :: "string option"
  error_message :: "string option"

text \<open>The loop over \<open>lookup_keys\<close>: the data under the first key that is in \<open>inmates\<close>.\<close>

fun first_match :: "roster \<Rightarrow> string list \<Rightarrow> inmate_data option" where
  "first_match inmates [] = None"
| "first_match inmates (key # keys) =
     (case map_of inmates key of
        Some inmate \<Rightarrow> Some inmate
      | None \<Rightarrow> first_match inmates keys)"

text \<open>
  \<open>check_custody\<close>: the verdict, the client afterwards and the requests sent. The
  \<open>except\<close> branch catches whatever the acquisition raises.
\<close>

definition check_custody :: "world \<Rightarrow> client \<Rightarrow> defendant \<Rightarrow> custody_result \<times> client \<times> request list" where
  "check_custody w c d =
     (let (first, middle, lastn) = search_name d
      in case fetch_current_confinements w c of
           (Inr inmates, c', sent) \<Rightarrow>
             (let lookup_keys = [normalize_name lastn first middle,
                                 normalize_name lastn first []]
              in case first_match inmates lookup_keys of
                   Some inmate \<Rightarrow>
                     (\<lparr> defendant_name = defendant_full_name d,
                        custody_result.matter_number = defendant.matter_number d,
                        custody_result.case_number = defendant.case_number d,
                        in_custody = True,
                        custody_result.booking_number = inmate_data.booking_number inmate,
                        custody_result.booking_date = inmate_data.booking_date inmate,
                        custody_location = Some ''Dorchester County Detention Center'',
                        charges_at_booking = inmate_data.charges inmate,
                        custody_result.bond_amount = inmate_data.bond_amount inmate,
                        custody_result.mugshot_url = inmate_data.mugshot_url inmate,
                        error_message = None \<rparr>, c', sent)
                 | None \<Rightarrow>
                     (\<lparr> defendant_name = defendant_full_name d,
                        custody_result.matter_number = defendant.matter_number d,
                        custody_result.case_number = defendant.case_number d,
                        in_custody = False,
                        custody_result.booking_number = None,
                        custody_result.booking_date = None,
                        custody_location = None,
                        charges_at_booking = None,
                        custody_result.bond_amount = None,
                        custody_result.mugshot_url = None,
                        error_message = None \<rparr>, c', sent))
         | (Inl e, c', sent) \<Rightarrow>
             (\<lparr> defendant_name = defendant_full_name d,
                custody_result.matter_number = defendant.matter_number d,
                custody_result.case_number = defendant.case_number d,
                in_custody = False,
                custody_result.booking_number = None,
                custody_result.booking_date = None,
                custody_location = None,
                charges_at_booking = None,
                custody_result.bond_amount = None,
                custody_result.mugshot_url = None,
                error_message = Some (''Error: '' @ exception_str e) \<rparr>, c', sent))"

text \<open>
  \<open>check_custody_for_all\<close>: one call of \<open>check_custody\<close> for every defendant, in
  order, on the same client. \<open>worlds i\<close> is the outside during call number \<open>i\<close>.
\<close>

fun check_custody_for_all ::
  "(nat \<Rightarrow> world) \<Rightarrow> nat \<Rightarrow> client \<Rightarrow> defendant list \<Rightarrow> custody_result list \<times> client" where
  "check_custody_for_all worlds i c [] = ([], c)"
| "check_custody_for_all worlds i c (d # defendants) =
     (let (verdict, c', sent) = check_custody (worlds i) c d;
          (results, c'') = check_custody_for_all worlds (Suc i) c' defendants
      in (verdict # results, c''))"

section \<open>Rate limiter\<close>

text \<open>
  The two fields of the client that \<open>_respect_rate_limit\<close> reads and writes. A time is
  a reading of \<open>time.time()\<close>, counted in ticks of the clock, and the arithmetic on
  times is exact.
\<close>

record rate_limiter =
  delay_seconds :: int
  last_request_time :: int

text \<open>
  \<open>_respect_rate_limit\<close>, the body that runs under the lock. \<open>now\<close> is the clock when
  the body starts, and \<open>late\<close> is how much later than \<open>now\<close> plus the time slept the
  reading of the last line is: \<open>time.sleep\<close> sleeps at least as long as it is asked
  to, and the clock does not go back.
\<close>

definition respect_rate_limit :: "int \<Rightarrow> nat \<Rightarrow> rate_limiter \<Rightarrow> rate_limiter" where
  "respect_rate_limit now late l =
     (let sleep_time =
            (if last_request_time l > 0
             then (let elapsed = now - last_request_time l
                   in if elapsed < delay_seconds l then delay_seconds l - elapsed else 0)
             else 0)
      in l\<lparr>last_request_time := now + sleep_time + int late\<rparr>)"

text \<open>
  What the scheduler does to one call: how long after the lock became free the call
  starts the body, how late the last reading of the clock is, and how long after that
  reading the call returns to its caller (the lock is released in between).
\<close>

record turn =
  waited :: nat
  overslept :: nat
  return_delay :: nat

text \<open>
  The calls of several workers, in the order in which they get the lock; the lock is
  free from \<open>clock\<close> on. For every call, the grant time it records and the time at
  which it returns.
\<close>

fun serve_turns :: "rate_limiter \<Rightarrow> int \<Rightarrow> turn list \<Rightarrow> (int \<times> int) list" where
  "serve_turns l clock [] = []"
| "serve_turns l clock (t # ts) =
     (let l' = respect_rate_limit (clock + int (waited t)) (overslept t) l;
          granted = last_request_time l'
      in (granted, granted + int (return_delay t)) # serve_turns l' granted ts)"

section \<open>Notions used to state the properties\<close>

text \<open>
  Two strings differ only in letter case or in surrounding whitespace: lowercased and
  stripped they are the same string.
\<close>

definition same_modulo_case_and_padding :: "string \<Rightarrow> string \<Rightarrow> bool" where
  "same_modulo_case_and_padding a b = (strip (lower a) = strip (lower b))"

text \<open>
  A page counts as empty in the acquisition loop: its fetch raised, or it returned the
  empty dictionary.
\<close>

definition page_empty :: "client \<Rightarrow> world \<Rightarrow> nat \<Rightarrow> bool" where
  "page_empty c w page_idx =
     (case fetch_single_page c w page_idx of
        Inl e \<Rightarrow> True
      | Inr page_inmates \<Rightarrow> page_inmates = [])"

text \<open>The pages of batch number \<open>k\<close> (from 0), and whether all of them are empty.\<close>

definition batch_pages :: "nat \<Rightarrow> nat list" where
  "batch_pages k = [batch_size * k + 1 ..< batch_size * k + 1 + batch_size]"

definition batch_empty :: "client \<Rightarrow> world \<Rightarrow> nat \<Rightarrow> bool" where
  "batch_empty c w k = list_all (page_empty c w) (batch_pages k)"

text \<open>
  An attempt of a request with the given method after which the session goes on to
  the next attempt, when \<open>remaining\<close> retries are left.
\<close>

fun retried :: "retry \<Rightarrow> nat \<Rightarrow> string \<Rightarrow> attempt \<Rightarrow> bool" where
  "retried r remaining method ConnectTimeout = True"
| "retried r remaining method ReadTimeout = is_method_retryable r method"
| "retried r remaining method (Responds resp) = is_retry r remaining method resp"

text \<open>The statuses the configuration of the source forces a retry on.\<close>

definition forced_status :: "nat \<Rightarrow> bool" where
  "forced_status code = (code = 429 \<or> code = 502 \<or> code = 503 \<or> code = 504)"

section \<open>Concrete pages, servers and subjects\<close>

definition named_card :: "string \<Rightarrow> booking_card" where
  "named_card header =
     \<lparr> h5 = Some header,
       detail_rows = [(Some ''Booked:'', Some '' 10/27/2025 ''), (Some ''Bond Total:'', Some ''$5,000.00'')],
       charge_items = [Some (Some ''DUI''), Some None, Some (Some '' SPEEDING '')],
       booking_mugshot = Some (Some ''mug/77.jpg''),
       hrefs = [''index.php'', ''details.php?BookingID=20250077&x=1''] \<rparr>"

definition nameless_card :: booking_card where
  "nameless_card = (named_card [])\<lparr> h5 := None \<rparr>"

definition ok_response :: "card list \<Rightarrow> response" where
  "ok_response cards = \<lparr> status_code = 200, retry_after = None, booking_cards = cards \<rparr>"

definition status_response :: "nat \<Rightarrow> response" where
  "status_response code = \<lparr> status_code = code, retry_after = None, booking_cards = [] \<rparr>"

text \<open>A server that answers every attempt with status 500, and one that answers 503.\<close>

definition always_500 :: "nat \<Rightarrow> attempt" where
  "always_500 k = Responds (status_response 500)"

definition always_503 :: "nat \<Rightarrow> attempt" where
  "always_503 k = Responds (status_response 503)"

text \<open>The jail has no inmates: every page is served, with no booking card.\<close>

definition empty_jail :: world where
  "empty_jail =
     \<lparr> main_page = None,
       confinements = (\<lambda>page_idx k. Responds (ok_response [])),
       completion = (\<lambda>batch_num. [7, 3, 11]) \<rparr>"

text \<open>
  Page 1 holds John Quincy Smith and a card without a name; page 2 times out twice and
  then holds Avery Arron Adams; page 3 always answers 503; the others are served empty.
\<close>

definition small_jail :: world where
  "small_jail =
     \<lparr> main_page = None,
       confinements = (\<lambda>page_idx k.
          if page_idx = 1
            then Responds (ok_response [Card (named_card ''John Quincy Smith''), Card nameless_card])
          else if page_idx = 2
            then (if k < 2 then ReadTimeout
                  else Responds (ok_response [Card (named_card ''AVERY ARRON ADAMS'')]))
          else if page_idx = 3 then always_503 k
          else Responds (ok_response [])),
       completion = (\<lambda>batch_num. [7, 3, 11]) \<rparr>"

text \<open>Every page answers 404.\<close>

definition missing_pages :: world where
  "missing_pages =
     \<lparr> main_page = None,
       confinements = (\<lambda>page_idx k. Responds (status_response 404)),
       completion = (\<lambda>batch_num. []) \<rparr>"

text \<open>The handshake with the main page fails.\<close>

definition unreachable_jail :: world where
  "unreachable_jail = small_jail \<lparr> main_page := Some (PyException ''Connection refused'') \<rparr>"

text \<open>The reads of page 2 of \<open>small_jail\<close>: two read timeouts, then the page.\<close>

definition slow_page :: "nat \<Rightarrow> attempt" where
  "slow_page k = confinements small_jail 2 k"

text \<open>A server that never answers in time.\<close>

definition always_timeout :: "nat \<Rightarrow> attempt" where
  "always_timeout k = ReadTimeout"

text \<open>
  A limiter with a delay of 10 ticks and three calls: the first returns 5 ticks after
  its grant, the second gets the lock at once, the third 25 ticks after the second
  grant.
\<close>

definition ten_tick_limiter :: rate_limiter where
  "ten_tick_limiter = \<lparr> delay_seconds = 10, last_request_time = 0 \<rparr>"

definition three_turns :: "turn list" where
  "three_turns =
     [\<lparr> waited = 0, overslept = 0, return_delay = 5 \<rparr>,
      \<lparr> waited = 0, overslept = 0, return_delay = 0 \<rparr>,
      \<lparr> waited = 25, overslept = 1, return_delay = 2 \<rparr>]"

definition john_smith :: defendant where
  "john_smith =
     \<lparr> last_name = ''Smith'', first_name = ''John'', middle_name = Some ''Q'',
       matter_number = Some ''M-1'', case_number = Some ''2024GS001'' \<rparr>"

definition avery_adams :: defendant where
  "avery_adams =
     \<lparr> last_name = ''ADAMS'', first_name = ''AVERY'', middle_name = Some ''ARRON'',
       matter_number = None, case_number = None \<rparr>"

definition jane_doe :: defendant where
  "jane_doe =
     \<lparr> last_name = ''Doe'', first_name = ''Jane'', middle_name = None,
       matter_number = None, case_number = None \<rparr>"

section \<open>Strings: lemmas\<close>

lemma is_space_lower_char: "is_space (lower_char c) = is_space c"
  unfolding is_space_def lower_char_def Let_def by auto

lemma strip_pad:
  assumes "\<forall>c\<in>set p. is_space c" and "\<forall>c\<in>set s. is_space c"
  shows "strip (p @ x @ s) = strip x"
proof -
  have a: "dropWhile is_space (p @ x @ s) = dropWhile is_space (x @ s)"
    by (rule dropWhile_append2) (use assms(1) in auto)
  show ?thesis
  proof (cases "\<forall>c\<in>set x. is_space c")
    case True
    have e1: "dropWhile is_space (x @ s) = []" using True assms(2) by auto
    have e2: "dropWhile is_space x = []" using True by auto
    show ?thesis unfolding strip_def a e1 e2 by simp
  next
    case False
    then obtain c where c: "c \<in> set x" "\<not> is_space c" by blast
    then have b: "dropWhile is_space (x @ s) = dropWhile is_space x @ s"
      by (rule dropWhile_append1)
    have "dropWhile is_space (rev s @ rev (dropWhile is_space x)) =
          dropWhile is_space (rev (dropWhile is_space x))"
      by (rule dropWhile_append2) (use assms(2) in auto)
    then show ?thesis unfolding strip_def a b by simp
  qed
qed

lemma lower_pad: "\<forall>c\<in>set p. is_space c \<Longrightarrow> \<forall>c\<in>set (lower p). is_space c"
  by (simp add: lower_def is_space_lower_char)

text \<open>
  Padding a component with whitespace and changing the case of its letters are both
  changes that \<open>same_modulo_case_and_padding\<close> allows.
\<close>

lemma same_modulo_case_and_padding_intro:
  assumes "\<forall>c\<in>set p. is_space c" and "\<forall>c\<in>set s. is_space c"
    and "\<forall>c\<in>set p'. is_space c" and "\<forall>c\<in>set s'. is_space c"
    and "lower x = lower y"
  shows "same_modulo_case_and_padding (p @ x @ s) (p' @ y @ s')"
proof -
  have l1: "lower (p @ x @ s) = lower p @ lower x @ lower s" by (simp add: lower_def)
  have l2: "lower (p' @ y @ s') = lower p' @ lower y @ lower s'" by (simp add: lower_def)
  have "strip (lower (p @ x @ s)) = strip (lower x)"
    unfolding l1 by (rule strip_pad [OF lower_pad [OF assms(1)] lower_pad [OF assms(2)]])
  moreover have "strip (lower (p' @ y @ s')) = strip (lower y)"
    unfolding l2 by (rule strip_pad [OF lower_pad [OF assms(3)] lower_pad [OF assms(4)]])
  ultimately show ?thesis
    using assms(5) by (simp add: same_modulo_case_and_padding_def)
qed

section \<open>Identity normalizer: properties\<close>

text \<open>
  What the code does give: for non-empty last and first names, and middle names that
  are both empty or both non-empty, two inputs whose components differ only in letter
  case or in leading and trailing whitespace have the same key; and the two examples of
  the docstring.
\<close>

lemma normalize_name_case_and_padding:
  "(l \<noteq> [] \<and> l' \<noteq> [] \<and> f \<noteq> [] \<and> f' \<noteq> [] \<and> (m = []) = (m' = []) \<and>
    same_modulo_case_and_padding l l' \<and> same_modulo_case_and_padding f f' \<and>
    same_modulo_case_and_padding m m'
      \<longrightarrow> normalize_name l f m = normalize_name l' f' m') \<and>
   normalize_name ''Smith'' ''John'' ''Q'' = ''smith john q'' \<and>
   normalize_name ''ADAMS'' ''AVERY'' ''ARRON'' = ''adams avery arron''"
proof -
  have general: "l \<noteq> [] \<and> l' \<noteq> [] \<and> f \<noteq> [] \<and> f' \<noteq> [] \<and> (m = []) = (m' = []) \<and>
    same_modulo_case_and_padding l l' \<and> same_modulo_case_and_padding f f' \<and>
    same_modulo_case_and_padding m m'
      \<longrightarrow> normalize_name l f m = normalize_name l' f' m'"
    by (simp add: normalize_name_def same_modulo_case_and_padding_def)
  have ex1: "normalize_name ''Smith'' ''John'' ''Q'' = ''smith john q''" by code_simp
  have ex2: "normalize_name ''ADAMS'' ''AVERY'' ''ARRON'' = ''adams avery arron''" by code_simp
  show ?thesis using general ex1 ex2 by blast
qed

lemma normalize_name_case_and_padding_example:
  "same_modulo_case_and_padding ''  SMITH '' ''Smith'' \<and>
   same_modulo_case_and_padding ''john'' '' John'' \<and>
   same_modulo_case_and_padding ''Q '' ''q'' \<and>
   normalize_name ''  SMITH '' ''john'' ''Q '' = normalize_name ''Smith'' '' John'' ''q''"
proof -
  have h1: "same_modulo_case_and_padding ''  SMITH '' ''Smith''" by code_simp
  have h2: "same_modulo_case_and_padding ''john'' '' John''" by code_simp
  have h3: "same_modulo_case_and_padding ''Q '' ''q''" by code_simp
  have "normalize_name ''  SMITH '' ''john'' ''Q '' = normalize_name ''Smith'' '' John'' ''q''"
    using normalize_name_case_and_padding
      [of "''  SMITH ''" "''Smith''" "''john''" "'' John''" "''Q ''" "''q''"] h1 h2 h3
    by simp
  then show ?thesis using h1 h2 h3 by simp
qed

text \<open>
  C6. The docstring of \<open>_normalize_name\<close> promises a key with no extra spaces, and
  the specification a whitespace-collapsed one. The code strips each part and collapses
  nothing: a last name with two spaces inside keeps them in the key, although it
  collapses to the same string as the name with one space; and a middle name of one
  space, which is not the empty string, leaves a trailing space in the key.
\<close>

theorem normalize_name_keeps_extra_spaces:
  "normalize_name ''Mc  Coy'' ''John'' [] = ''mc  coy john'' \<and>
   normalize_name ''Mc Coy'' ''John'' [] = ''mc coy john'' \<and>
   collapse_whitespace ''Mc  Coy'' = collapse_whitespace ''Mc Coy'' \<and>
   normalize_name ''Smith'' ''John'' '' '' = ''smith john '' \<and>
   normalize_name ''Smith'' ''John'' [] = ''smith john''"
  by code_simp

section \<open>Page extraction: properties\<close>

lemma parse_card_names:
  assumes "h5 c = Some header" and "split (strip header) = t # mids @ [u]"
  shows "\<exists>data. parse_card c =
            Some ([normalize_name u t (join '' '' mids), normalize_name u t []], data) \<and>
          full_name data = strip header \<and> inmate_data.first_name data = t \<and>
          inmate_data.middle_name data = join '' '' mids \<and> inmate_data.last_name data = u"
proof -
  have len: "\<not> length (split (strip header)) < 2" using assms(2) by simp
  have mid: "(if 2 < length (t # mids @ [u]) then join '' '' (tl (butlast (t # mids @ [u]))) else [])
             = join '' '' mids"
    by (cases mids) (simp_all add: butlast_append)
  show ?thesis
    unfolding parse_card_def using assms(1) len
    apply (simp only: option.case Let_def assms(2) if_False mid)
    apply (simp add: split_beta)
    done
qed

lemma parse_card_dropped:
  "h5 c = None \<or> (\<exists>header. h5 c = Some header \<and> length (split (strip header)) < 2)
   \<Longrightarrow> parse_card c = None"
  by (auto simp: parse_card_def Let_def)

lemma card_step_two_keys:
  "parse_card c = Some ([k1, k2], data) \<Longrightarrow>
   map_of (card_step (Card c) inmates) k1 = Some data \<and>
   map_of (card_step (Card c) inmates) k2 = Some data"
  by (simp add: AList.update_conv')

lemma card_step_fresh:
  "parse_card c = Some ([k1, k2], data) \<Longrightarrow>
   card_step (Card c) [] = (if k1 = k2 then [(k1, data)] else [(k1, data), (k2, data)])"
  by simp

lemma at_least_two_tokens:
  "2 \<le> length (toks :: 'a list) \<Longrightarrow> \<exists>t mids u. toks = t # mids @ [u]"
proof -
  assume a: "2 \<le> length toks"
  then obtain t rest where tr: "toks = t # rest" by (cases toks) auto
  with a have "rest \<noteq> []" by auto
  then have "rest = butlast rest @ [last rest]" by simp
  with tr show ?thesis by blast
qed

text \<open>
  C10. When the display name of a card splits into at least two tokens \<open>t\<close>, \<open>mids\<close>,
  \<open>u\<close>, the record takes \<open>t\<close> as first name, \<open>u\<close> as last name and the interior tokens
  joined with spaces as middle name (empty for two tokens), and the card loop stores
  it under \<open>normalize_name u t middle\<close> and \<open>normalize_name u t ""\<close>. Every name of at
  least two tokens has this shape.
\<close>

theorem display_name_first_token_is_first_name:
  "(h5 c = Some header \<and> split (strip header) = t # mids @ [u] \<longrightarrow>
      (\<exists>data. parse_card c =
                Some ([normalize_name u t (join '' '' mids), normalize_name u t []], data) \<and>
              inmate_data.first_name data = t \<and>
              inmate_data.last_name data = u \<and>
              inmate_data.middle_name data = join '' '' mids \<and>
              (mids = [] \<longrightarrow> inmate_data.middle_name data = []) \<and>
              map_of (card_step (Card c) inmates) (normalize_name u t (join '' '' mids)) = Some data \<and>
              map_of (card_step (Card c) inmates) (normalize_name u t []) = Some data)) \<and>
   (2 \<le> length (split (strip header)) \<longrightarrow>
      (\<exists>t' mids' u'. split (strip header) = t' # mids' @ [u']))"
proof (intro conjI impI)
  assume a: "h5 c = Some header \<and> split (strip header) = t # mids @ [u]"
  then obtain data where d:
    "parse_card c = Some ([normalize_name u t (join '' '' mids), normalize_name u t []], data)"
    "inmate_data.first_name data = t" "inmate_data.middle_name data = join '' '' mids"
    "inmate_data.last_name data = u"
    using parse_card_names [of c header t mids u] by blast
  have "mids = [] \<longrightarrow> inmate_data.middle_name data = []" using d(3) by simp
  with d card_step_two_keys [OF d(1), of inmates]
  show "\<exists>data. parse_card c =
                Some ([normalize_name u t (join '' '' mids), normalize_name u t []], data) \<and>
              inmate_data.first_name data = t \<and>
              inmate_data.last_name data = u \<and>
              inmate_data.middle_name data = join '' '' mids \<and>
              (mids = [] \<longrightarrow> inmate_data.middle_name data = []) \<and>
              map_of (card_step (Card c) inmates) (normalize_name u t (join '' '' mids)) = Some data \<and>
              map_of (card_step (Card c) inmates) (normalize_name u t []) = Some data"
    by blast
next
  assume "2 \<le> length (split (strip header))"
  then show "\<exists>t' mids' u'. split (strip header) = t' # mids' @ [u']"
    by (rule at_least_two_tokens)
qed

theorem display_name_first_token_is_first_name_witness:
  "h5 (named_card ''Mary Ann Lee Jones'') = Some ''Mary Ann Lee Jones'' \<and>
   split (strip ''Mary Ann Lee Jones'') = ''Mary'' # [''Ann'', ''Lee''] @ [''Jones''] \<and>
   (\<exists>data. parse_card (named_card ''Mary Ann Lee Jones'') =
             Some ([''jones mary ann lee'', ''jones mary''], data) \<and>
           inmate_data.first_name data = ''Mary'' \<and>
           inmate_data.last_name data = ''Jones'' \<and>
           inmate_data.middle_name data = ''Ann Lee'')"
proof -
  have h1: "h5 (named_card ''Mary Ann Lee Jones'') = Some ''Mary Ann Lee Jones''"
    by (simp add: named_card_def)
  have h2: "split (strip ''Mary Ann Lee Jones'') = ''Mary'' # [''Ann'', ''Lee''] @ [''Jones'']"
    by code_simp
  have j: "join '' '' [''Ann'', ''Lee''] = ''Ann Lee''" by code_simp
  have k1: "normalize_name ''Jones'' ''Mary'' ''Ann Lee'' = ''jones mary ann lee''"
    by code_simp
  have k2: "normalize_name ''Jones'' ''Mary'' [] = ''jones mary''" by code_simp
  from display_name_first_token_is_first_name
      [of "named_card ''Mary Ann Lee Jones''" "''Mary Ann Lee Jones''" "''Mary''"
          "[''Ann'', ''Lee'']" "''Jones''" "[]"] h1 h2
  obtain data where
    "parse_card (named_card ''Mary Ann Lee Jones'') =
       Some ([normalize_name ''Jones'' ''Mary'' (join '' '' [''Ann'', ''Lee'']),
              normalize_name ''Jones'' ''Mary'' []], data)"
    "inmate_data.first_name data = ''Mary''" "inmate_data.last_name data = ''Jones''"
    "inmate_data.middle_name data = join '' '' [''Ann'', ''Lee'']"
    by blast
  then have "parse_card (named_card ''Mary Ann Lee Jones'') =
               Some ([''jones mary ann lee'', ''jones mary''], data) \<and>
             inmate_data.first_name data = ''Mary'' \<and>
             inmate_data.last_name data = ''Jones'' \<and>
             inmate_data.middle_name data = ''Ann Lee''"
    unfolding j k1 k2 by simp
  then show ?thesis using h1 h2 by blast
qed

lemma parse_response_single:
  assumes "h5 c = Some header" and "split (strip header) = t # mids @ [u]"
    and "normalize_name u t (join '' '' mids) = k1" and "normalize_name u t [] = k2"
    and "k1 \<noteq> k2"
  shows "\<exists>data. parse_response (ok_response [Card c]) = [(k1, data), (k2, data)] \<and>
               full_name data = strip header"
proof -
  from parse_card_names [OF assms(1) assms(2)] obtain data where
    d: "parse_card c = Some ([k1, k2], data)" "full_name data = strip header"
    unfolding assms(3) assms(4) by blast
  have "parse_response (ok_response [Card c]) = card_step (Card c) []"
    by (simp add: parse_response_def ok_response_def)
  also have "\<dots> = [(k1, data), (k2, data)]"
    using card_step_fresh [OF d(1)] assms(5) by simp
  finally show ?thesis using d(2) by blast
qed

text \<open>
  C3 (as the code has it). The first token of a display name is taken as the first name
  and the last token as the last name, so the record of a card whose display name is
  \<open>"Adams Avery Arron"\<close> is stored under \<open>"arron adams avery"\<close> and \<open>"arron adams"\<close>;
  the display name stored under \<open>"adams avery arron"\<close> and \<open>"adams avery"\<close> is
  \<open>"Avery Arron Adams"\<close>.
\<close>

theorem adams_avery_arron_lookup_keys:
  "(h5 c = Some ''Adams Avery Arron'' \<longrightarrow>
      (\<exists>data. parse_response (ok_response [Card c]) =
                [(''arron adams avery'', data), (''arron adams'', data)] \<and>
              full_name data = ''Adams Avery Arron'')) \<and>
   (h5 c = Some ''Avery Arron Adams'' \<longrightarrow>
      (\<exists>data. parse_response (ok_response [Card c]) =
                [(''adams avery arron'', data), (''adams avery'', data)] \<and>
              full_name data = ''Avery Arron Adams''))"
proof (intro conjI impI)
  assume h: "h5 c = Some ''Adams Avery Arron''"
  have s: "split (strip ''Adams Avery Arron'') = ''Adams'' # [''Avery''] @ [''Arron'']"
    by code_simp
  have k1: "normalize_name ''Arron'' ''Adams'' (join '' '' [''Avery'']) = ''arron adams avery''"
    by code_simp
  have k2: "normalize_name ''Arron'' ''Adams'' [] = ''arron adams''" by code_simp
  have st: "strip ''Adams Avery Arron'' = ''Adams Avery Arron''" by code_simp
  show "\<exists>data. parse_response (ok_response [Card c]) =
                [(''arron adams avery'', data), (''arron adams'', data)] \<and>
              full_name data = ''Adams Avery Arron''"
    using parse_response_single [OF h s k1 k2] unfolding st by simp
next
  assume h: "h5 c = Some ''Avery Arron Adams''"
  have s: "split (strip ''Avery Arron Adams'') = ''Avery'' # [''Arron''] @ [''Adams'']"
    by code_simp
  have k1: "normalize_name ''Adams'' ''Avery'' (join '' '' [''Arron'']) = ''adams avery arron''"
    by code_simp
  have k2: "normalize_name ''Adams'' ''Avery'' [] = ''adams avery''" by code_simp
  have st: "strip ''Avery Arron Adams'' = ''Avery Arron Adams''" by code_simp
  show "\<exists>data. parse_response (ok_response [Card c]) =
                [(''adams avery arron'', data), (''adams avery'', data)] \<and>
              full_name data = ''Avery Arron Adams''"
    using parse_response_single [OF h s k1 k2] unfolding st by simp
qed

theorem adams_avery_arron_lookup_keys_witness:
  "h5 (named_card ''Adams Avery Arron'') = Some ''Adams Avery Arron'' \<and>
   (\<exists>data. parse_response (ok_response [Card (named_card ''Adams Avery Arron'')]) =
             [(''arron adams avery'', data), (''arron adams'', data)] \<and>
           full_name data = ''Adams Avery Arron'')"
proof -
  have h: "h5 (named_card ''Adams Avery Arron'') = Some ''Adams Avery Arron''"
    by (simp add: named_card_def)
  show ?thesis
    using adams_avery_arron_lookup_keys [of "named_card ''Adams Avery Arron''"] h by blast
qed

text \<open>
  C3 as stated fails: after extracting a page whose only card shows
  \<open>"Adams Avery Arron"\<close>, neither \<open>"adams avery arron"\<close> nor \<open>"adams avery"\<close> is a key.
\<close>

theorem adams_avery_arron_counterexample:
  "map_of (parse_response (ok_response [Card (named_card ''Adams Avery Arron'')]))
      ''adams avery arron'' = None \<and>
   map_of (parse_response (ok_response [Card (named_card ''Adams Avery Arron'')]))
      ''adams avery'' = None"
  by code_simp

lemma card_step_dropped:
  assumes "bad = Raising e \<or>
           (\<exists>b. bad = Card b \<and>
                (h5 b = None \<or> (\<exists>header. h5 b = Some header \<and> length (split (strip header)) < 2)))"
  shows "card_step bad inmates = inmates"
proof -
  from assms consider "bad = Raising e"
    | b where "bad = Card b"
        "h5 b = None \<or> (\<exists>header. h5 b = Some header \<and> length (split (strip header)) < 2)"
    by blast
  then show ?thesis
  proof cases
    case 1
    then show ?thesis by simp
  next
    case 2
    then show ?thesis using parse_card_dropped [of b] by simp
  qed
qed

lemma parse_response_fold:
  "status_code resp = 200 \<Longrightarrow> parse_response resp = fold card_step (booking_cards resp) []"
  by (simp add: parse_response_def)

lemma urlopen_after_retries:
  assumes "\<forall>i < j. retried r (remaining - i) method (server (k + i))"
    and "j \<le> remaining"
    and "server (k + j) = Responds resp"
    and "\<not> is_retry r (remaining - j) method resp"
  shows "urlopen r method server k remaining =
           (Inr resp, Suc (k + j), map (\<lambda>i. retry_sleep r (Suc i) (server i)) [k ..< k + j])"
  using assms
proof (induction j arbitrary: k remaining)
  case 0
  then show ?case by (cases remaining) simp_all
next
  case (Suc j)
  then obtain rem where rem: "remaining = Suc rem" by (cases remaining) auto
  have first: "retried r (Suc rem) method (server k)"
    using Suc.prems(1) [rule_format, of 0] rem by simp
  have rest: "\<forall>i < j. retried r (rem - i) method (server (Suc k + i))"
  proof (intro allI impI)
    fix i assume "i < j"
    then show "retried r (rem - i) method (server (Suc k + i))"
      using Suc.prems(1) [rule_format, of "Suc i"] rem by simp
  qed
  have "urlopen r method server (Suc k) rem =
          (Inr resp, Suc (Suc k + j),
           map (\<lambda>i. retry_sleep r (Suc i) (server i)) [Suc k ..< Suc k + j])"
  proof (rule Suc.IH [OF rest])
    show "j \<le> rem" using Suc.prems(2) rem by simp
    show "server (Suc k + j) = Responds resp" using Suc.prems(3) by simp
    show "\<not> is_retry r (rem - j) method resp" using Suc.prems(4) rem by simp
  qed
  moreover have "[k ..< k + Suc j] = k # [Suc k ..< Suc k + j]"
    by (simp add: upt_rec [of k])
  ultimately show ?case
    using first unfolding rem by (cases "server k") simp_all
qed

lemma urlopen_exhausted:
  assumes "\<forall>i \<le> remaining. retried r (remaining - i) method (server (k + i))"
  shows "\<exists>e. urlopen r method server k remaining =
           (Inl e, Suc (k + remaining),
            map (\<lambda>i. retry_sleep r (Suc i) (server i)) [k ..< k + remaining])"
  using assms
proof (induction remaining arbitrary: k)
  case 0
  then have "retried r 0 method (server k)" by simp
  then show ?case by (cases "server k") simp_all
next
  case (Suc remaining)
  have first: "retried r (Suc remaining) method (server k)"
    using Suc.prems [rule_format, of 0] by simp
  have "\<forall>i \<le> remaining. retried r (remaining - i) method (server (Suc k + i))"
  proof (intro allI impI)
    fix i assume "i \<le> remaining"
    then show "retried r (remaining - i) method (server (Suc k + i))"
      using Suc.prems [rule_format, of "Suc i"] by simp
  qed
  then obtain e where
    e: "urlopen r method server (Suc k) remaining =
          (Inl e, Suc (Suc k + remaining),
           map (\<lambda>i. retry_sleep r (Suc i) (server i)) [Suc k ..< Suc k + remaining])"
    using Suc.IH by blast
  have "[k ..< k + Suc remaining] = k # [Suc k ..< Suc k + remaining]"
    by (simp add: upt_rec [of k])
  then show ?case
    using first e by (cases "server k") simp_all
qed

lemma post_retryable: "is_method_retryable (retry_strategy n) ''POST''"
  by (simp add: is_method_retryable_def retry_strategy_def upper_def upper_char_def)

lemma is_retry_post:
  "is_retry (retry_strategy n) remaining ''POST'' resp =
     (forced_status (status_code resp) \<or>
      (remaining \<noteq> 0 \<and> retry_after resp \<noteq> None \<and> status_code resp = 413))"
  using post_retryable [of n]
  by (auto simp: is_retry_def retry_strategy_def forced_status_def has_retry_after_def)

text \<open>
  C7 (as the code has it). A response that the session hands back with a status other
  than 200 gives the empty dictionary, not an exception: so does every page whose
  first answer has a status other than 200 that is not a forced one (and, for 413,
  carries no \<open>Retry-After\<close>). A page that answers every attempt with a forced status
  (429, 502, 503, 504) makes the page fetch raise, and counts as an empty page. A card
  that raises, has no header or has a header of fewer than two tokens changes nothing:
  the page gives what it gives without that card, whatever stands before and after it.
  A page of one card with a name of at least two tokens and one card without a header
  holds exactly one record, in either order.
\<close>

theorem page_extraction_contains_failures:
  "(status_code resp \<noteq> 200 \<longrightarrow>
      parse_response resp = [] \<and>
      (fst (session_post (retry_strategy (max_retries c)) (confinements w page_idx)) = Inr resp
         \<longrightarrow> fetch_single_page c w page_idx = Inr []) \<and>
      (confinements w page_idx 0 = Responds resp \<and> \<not> forced_status (status_code resp) \<and>
       (status_code resp = 413 \<longrightarrow> retry_after resp = None)
         \<longrightarrow> fetch_single_page c w page_idx = Inr [])) \<and>
   ((\<forall>k \<le> max_retries c.
        \<exists>answer. confinements w page_idx k = Responds answer \<and>
                 forced_status (status_code answer))
      \<longrightarrow> fetch_single_page c w page_idx = Inl (PyException ''RetryError'') \<and>
          page_empty c w page_idx) \<and>
   (status_code page = 200 \<and> booking_cards page = before @ bad # after \<and>
    (bad = Raising e \<or>
     (\<exists>b. bad = Card b \<and>
          (h5 b = None \<or> (\<exists>header. h5 b = Some header \<and> length (split (strip header)) < 2))))
      \<longrightarrow> parse_response page = parse_response (page\<lparr>booking_cards := before @ after\<rparr>)) \<and>
   (h5 good = Some name \<and> split (strip name) = t # mids @ [u] \<and> h5 nameless = None \<longrightarrow>
      (\<exists>data. parse_card good =
                Some ([normalize_name u t (join '' '' mids), normalize_name u t []], data) \<and>
              snd ` set (parse_response (ok_response [Card good, Card nameless])) = {data} \<and>
              snd ` set (parse_response (ok_response [Card nameless, Card good])) = {data}))"
proof (intro conjI)
  show "status_code resp \<noteq> 200 \<longrightarrow>
      parse_response resp = [] \<and>
      (fst (session_post (retry_strategy (max_retries c)) (confinements w page_idx)) = Inr resp
         \<longrightarrow> fetch_single_page c w page_idx = Inr []) \<and>
      (confinements w page_idx 0 = Responds resp \<and> \<not> forced_status (status_code resp) \<and>
       (status_code resp = 413 \<longrightarrow> retry_after resp = None)
         \<longrightarrow> fetch_single_page c w page_idx = Inr [])"
  proof (intro impI conjI)
    assume s: "status_code resp \<noteq> 200"
    then show p: "parse_response resp = []" by (simp add: parse_response_def)
    {
      assume "fst (session_post (retry_strategy (max_retries c)) (confinements w page_idx)) = Inr resp"
      then show "fetch_single_page c w page_idx = Inr []"
        using p by (simp add: fetch_single_page_def)
    }
    {
      assume a: "confinements w page_idx 0 = Responds resp \<and> \<not> forced_status (status_code resp) \<and>
         (status_code resp = 413 \<longrightarrow> retry_after resp = None)"
      then have nr: "\<not> is_retry (retry_strategy (max_retries c)) (max_retries c - 0) ''POST'' resp"
        by (auto simp: is_retry_post)
      have "urlopen (retry_strategy (max_retries c)) ''POST'' (confinements w page_idx) 0
              (max_retries c) =
            (Inr resp, Suc (0 + 0),
             map (\<lambda>i. retry_sleep (retry_strategy (max_retries c)) (Suc i)
                         (confinements w page_idx i)) [0 ..< 0 + 0])"
        by (rule urlopen_after_retries) (use a nr in simp_all)
      then have "fst (session_post (retry_strategy (max_retries c)) (confinements w page_idx)) =
                   Inr resp"
        by (simp add: session_post_def retry_strategy_def)
      then show "fetch_single_page c w page_idx = Inr []"
        using p by (simp add: fetch_single_page_def)
    }
  qed
next
  show "(\<forall>k \<le> max_retries c.
        \<exists>answer. confinements w page_idx k = Responds answer \<and>
                 forced_status (status_code answer))
      \<longrightarrow> fetch_single_page c w page_idx = Inl (PyException ''RetryError'') \<and>
          page_empty c w page_idx"
  proof
    assume a: "\<forall>k \<le> max_retries c.
        \<exists>answer. confinements w page_idx k = Responds answer \<and>
                 forced_status (status_code answer)"
    let ?r = "retry_strategy (max_retries c)"
    have all: "\<forall>i \<le> max_retries c.
                 retried ?r (max_retries c - i) ''POST'' (confinements w page_idx (0 + i))"
    proof (intro allI impI)
      fix i assume "i \<le> max_retries c"
      with a obtain answer where
        "confinements w page_idx i = Responds answer" "forced_status (status_code answer)"
        by blast
      then show "retried ?r (max_retries c - i) ''POST'' (confinements w page_idx (0 + i))"
        by (simp add: is_retry_post)
    qed
    from urlopen_exhausted [OF all] obtain x where
      x: "fst (session_post ?r (confinements w page_idx)) = Inl x"
      by (auto simp: session_post_def retry_strategy_def)
    have last: "\<exists>answer. confinements w page_idx (max_retries c) = Responds answer"
      using a by blast
    have "\<And>k rem. k + rem = max_retries c \<Longrightarrow>
            fst (urlopen ?r ''POST'' (confinements w page_idx) k rem) = Inl x' \<Longrightarrow>
            x' = PyException ''RetryError''" for x'
    proof -
      fix k rem
      show "k + rem = max_retries c \<Longrightarrow>
            fst (urlopen ?r ''POST'' (confinements w page_idx) k rem) = Inl x' \<Longrightarrow>
            x' = PyException ''RetryError''"
      proof (induction rem arbitrary: k)
        case 0
        then obtain answer where "confinements w page_idx k = Responds answer"
          using last by auto
        then show ?case using 0 by (auto split: if_splits)
      next
        case (Suc rem)
        then have "k \<le> max_retries c" by simp
        with a obtain answer where
          an: "confinements w page_idx k = Responds answer" "forced_status (status_code answer)"
          by blast
        obtain o1 n1 s1 where
          u: "urlopen ?r ''POST'' (confinements w page_idx) (Suc k) rem = (o1, n1, s1)"
          by (cases "urlopen ?r ''POST'' (confinements w page_idx) (Suc k) rem")
        have "o1 = Inl x'" using Suc.prems(2) an u by (simp add: is_retry_post)
        then show ?case using Suc.IH [of "Suc k"] Suc.prems(1) u by simp
      qed
    qed
    from this [of 0 "max_retries c" x] x have "x = PyException ''RetryError''"
      by (simp add: session_post_def retry_strategy_def)
    with x have "fetch_single_page c w page_idx = Inl (PyException ''RetryError'')"
      by (simp add: fetch_single_page_def)
    then show "fetch_single_page c w page_idx = Inl (PyException ''RetryError'') \<and>
          page_empty c w page_idx"
      by (simp add: page_empty_def)
  qed
next
  show "status_code page = 200 \<and> booking_cards page = before @ bad # after \<and>
    (bad = Raising e \<or>
     (\<exists>b. bad = Card b \<and>
          (h5 b = None \<or> (\<exists>header. h5 b = Some header \<and> length (split (strip header)) < 2))))
      \<longrightarrow> parse_response page = parse_response (page\<lparr>booking_cards := before @ after\<rparr>)"
  proof
    assume a: "status_code page = 200 \<and> booking_cards page = before @ bad # after \<and>
      (bad = Raising e \<or>
       (\<exists>b. bad = Card b \<and>
            (h5 b = None \<or> (\<exists>header. h5 b = Some header \<and> length (split (strip header)) < 2))))"
    then have skip: "\<And>inmates. card_step bad inmates = inmates"
      using card_step_dropped [of bad e] by blast
    have "parse_response page = fold card_step (before @ bad # after) []"
      using a by (simp add: parse_response_fold)
    also have "\<dots> = fold card_step (before @ after) []"
      by (simp add: skip)
    also have "\<dots> = parse_response (page\<lparr>booking_cards := before @ after\<rparr>)"
      using a by (simp add: parse_response_fold)
    finally show "parse_response page = parse_response (page\<lparr>booking_cards := before @ after\<rparr>)" .
  qed
next
  show "h5 good = Some name \<and> split (strip name) = t # mids @ [u] \<and> h5 nameless = None \<longrightarrow>
      (\<exists>data. parse_card good =
                Some ([normalize_name u t (join '' '' mids), normalize_name u t []], data) \<and>
              snd ` set (parse_response (ok_response [Card good, Card nameless])) = {data} \<and>
              snd ` set (parse_response (ok_response [Card nameless, Card good])) = {data})"
  proof
    assume a: "h5 good = Some name \<and> split (strip name) = t # mids @ [u] \<and> h5 nameless = None"
    then obtain data where
      d: "parse_card good = Some ([normalize_name u t (join '' '' mids), normalize_name u t []], data)"
      using parse_card_names [of good name t mids u] by blast
    have n: "parse_card nameless = None" using a parse_card_dropped [of nameless] by blast
    have r1: "parse_response (ok_response [Card good, Card nameless]) = card_step (Card good) []"
      using n by (simp add: parse_response_def ok_response_def)
    have r2: "parse_response (ok_response [Card nameless, Card good]) = card_step (Card good) []"
      using n by (simp add: parse_response_def ok_response_def)
    have "snd ` set (card_step (Card good) []) = {data}"
      using card_step_fresh [OF d] by simp
    with d r1 r2
    show "\<exists>data. parse_card good =
                Some ([normalize_name u t (join '' '' mids), normalize_name u t []], data) \<and>
              snd ` set (parse_response (ok_response [Card good, Card nameless])) = {data} \<and>
              snd ` set (parse_response (ok_response [Card nameless, Card good])) = {data}"
      by simp
  qed
qed

theorem page_extraction_contains_failures_witness:
  "status_code (status_response 404) \<noteq> 200 \<and>
   parse_response (status_response 404) = [] \<and>
   fetch_single_page (new_client 3) missing_pages 1 = Inr [] \<and>
   fetch_single_page (new_client 3) small_jail 3 = Inl (PyException ''RetryError'') \<and>
   page_empty (new_client 3) small_jail 3 \<and>
   parse_response (ok_response [Card (named_card ''John Quincy Smith''),
                                Card (named_card ''Madonna''),
                                Card (named_card ''Avery Adams'')]) =
   parse_response (ok_response [Card (named_card ''John Quincy Smith''),
                                Card (named_card ''Avery Adams'')]) \<and>
   card (snd ` set (parse_response
          (ok_response [Card (named_card ''John Quincy Smith''), Card nameless_card]))) = 1"
proof -
  have h1: "status_code (status_response 404) \<noteq> 200" by (simp add: status_response_def)
  have h2: "status_code (ok_response [Card (named_card ''John Quincy Smith''),
              Card (named_card ''Madonna''), Card (named_card ''Avery Adams'')]) = 200"
    by (simp add: ok_response_def)
  have h3: "booking_cards (ok_response [Card (named_card ''John Quincy Smith''),
              Card (named_card ''Madonna''), Card (named_card ''Avery Adams'')]) =
            [Card (named_card ''John Quincy Smith'')] @ Card (named_card ''Madonna'') #
            [Card (named_card ''Avery Adams'')]"
    by (simp add: ok_response_def)
  have h4: "h5 (named_card ''Madonna'') = Some ''Madonna'' \<and>
            length (split (strip ''Madonna'')) < 2"
    by code_simp
  have g5: "h5 (named_card ''John Quincy Smith'') = Some ''John Quincy Smith''"
    by (simp add: named_card_def)
  have h6: "split (strip ''John Quincy Smith'') = ''John'' # [''Quincy''] @ [''Smith'']"
    by code_simp
  have h7: "h5 nameless_card = None" by (simp add: nameless_card_def)
  have h8: "confinements missing_pages 1 0 = Responds (status_response 404) \<and>
            \<not> forced_status (status_code (status_response 404)) \<and>
            (status_code (status_response 404) = 413 \<longrightarrow>
               retry_after (status_response 404) = None)"
    by (simp add: missing_pages_def status_response_def forced_status_def)
  have h9: "\<forall>k \<le> max_retries (new_client 3).
        \<exists>answer. confinements small_jail 3 k = Responds answer \<and>
                 forced_status (status_code answer)"
    by (simp add: small_jail_def always_503_def status_response_def forced_status_def)
  note inst = page_extraction_contains_failures
    [of "status_response 404" "new_client 3" missing_pages 1
        "ok_response [Card (named_card ''John Quincy Smith''),
              Card (named_card ''Madonna''), Card (named_card ''Avery Adams'')]"
        "[Card (named_card ''John Quincy Smith'')]" "Card (named_card ''Madonna'')"
        "[Card (named_card ''Avery Adams'')]" "PyException []"
        "named_card ''John Quincy Smith''" "''John Quincy Smith''" "''John''" "[''Quincy'']"
        "''Smith''" nameless_card]
  note inst3 = page_extraction_contains_failures
    [of "status_response 404" "new_client 3" small_jail 3
        "ok_response [Card (named_card ''John Quincy Smith''),
              Card (named_card ''Madonna''), Card (named_card ''Avery Adams'')]"
        "[Card (named_card ''John Quincy Smith'')]" "Card (named_card ''Madonna'')"
        "[Card (named_card ''Avery Adams'')]" "PyException []"
        "named_card ''John Quincy Smith''" "''John Quincy Smith''" "''John''" "[''Quincy'']"
        "''Smith''" nameless_card]
  have c1: "parse_response (status_response 404) = []" using inst h1 by blast
  have c1a: "fetch_single_page (new_client 3) missing_pages 1 = Inr []"
    using inst h1 h8 by blast
  have c1b: "fetch_single_page (new_client 3) small_jail 3 = Inl (PyException ''RetryError'') \<and>
             page_empty (new_client 3) small_jail 3"
    using inst3 h9 by blast
  have c2: "parse_response (ok_response [Card (named_card ''John Quincy Smith''),
                                Card (named_card ''Madonna''),
                                Card (named_card ''Avery Adams'')]) =
            parse_response (ok_response [Card (named_card ''John Quincy Smith''),
                                Card (named_card ''Avery Adams'')])"
  proof -
    have "parse_response (ok_response [Card (named_card ''John Quincy Smith''),
              Card (named_card ''Madonna''), Card (named_card ''Avery Adams'')]) =
          parse_response ((ok_response [Card (named_card ''John Quincy Smith''),
              Card (named_card ''Madonna''), Card (named_card ''Avery Adams'')])
              \<lparr>booking_cards := [Card (named_card ''John Quincy Smith'')] @
                                 [Card (named_card ''Avery Adams'')]\<rparr>)"
      using inst h2 h3 h4 by blast
    then show ?thesis by (simp add: ok_response_def)
  qed
  have c3: "card (snd ` set (parse_response
          (ok_response [Card (named_card ''John Quincy Smith''), Card nameless_card]))) = 1"
  proof -
    from inst g5 h6 h7 obtain data where
      "snd ` set (parse_response
          (ok_response [Card (named_card ''John Quincy Smith''), Card nameless_card])) = {data}"
      by blast
    then show ?thesis by simp
  qed
  show ?thesis using h1 c1 c1a c1b c2 c3 by blast
qed

text \<open>
  C7 as stated fails: page 3 of \<open>small_jail\<close> answers every attempt with the
  non-success status 503, and its page fetch raises instead of giving an empty record
  set.
\<close>

theorem forced_status_page_raises_counterexample:
  "confinements small_jail 3 0 = Responds (status_response 503) \<and>
   fetch_single_page (new_client 3) small_jail 3 = Inl (PyException ''RetryError'')"
  by code_simp

section \<open>Roster acquirer: properties\<close>

lemma as_completed_length: "length (as_completed picks fs) = length fs"
proof (induction picks fs rule: as_completed.induct)
  case (3 k picks f fs)
  let ?i = "k mod length (f # fs)"
  have i: "?i < length (f # fs)" by simp
  have "length (f # fs) = length (take ?i (f # fs) @ (f # fs) ! ?i # drop (Suc ?i) (f # fs))"
    using id_take_nth_drop [OF i] by simp
  then have "length (take ?i (f # fs) @ drop (Suc ?i) (f # fs)) = length fs"
    by (simp del: take_Suc_Cons drop_Suc_Cons length_take length_drop
             add: length_append)
  with 3 show ?case by simp
qed simp_all

lemma as_completed_set: "set (as_completed picks fs) = set fs"
proof (induction picks fs rule: as_completed.induct)
  case (3 k picks f fs)
  let ?i = "k mod length (f # fs)"
  have i: "?i < length (f # fs)" by simp
  have "set (f # fs) = set (take ?i (f # fs) @ (f # fs) ! ?i # drop (Suc ?i) (f # fs))"
    using id_take_nth_drop [OF i] by simp
  then have "set (f # fs) =
             insert ((f # fs) ! ?i) (set (take ?i (f # fs) @ drop (Suc ?i) (f # fs)))"
    by simp
  with 3 show ?case by simp
qed simp_all

text \<open>A future counts as empty when its page raised or returned the empty dictionary.\<close>

lemma collect_all_empty:
  "\<forall>f\<in>set fs. (case snd f of Inl e \<Rightarrow> True | Inr page_inmates \<Rightarrow> page_inmates = []) \<Longrightarrow>
   fold collect fs (inmates, n, d) = (inmates, n + length fs, d)"
proof (induction fs arbitrary: n)
  case Nil
  then show ?case by simp
next
  case (Cons f fs)
  obtain p r where f: "f = (p, r)" by (cases f)
  have "collect f (inmates, n, d) = (inmates, Suc n, d)"
    using Cons.prems f by (cases r) auto
  then show ?case using Cons by simp
qed

lemma collect_empty_pages_le:
  "fst (snd (fold collect fs (inmates, n, d))) \<le> n + length fs"
proof (induction fs arbitrary: inmates n d)
  case Nil
  then show ?case by simp
next
  case (Cons f fs)
  obtain p r where f: "f = (p, r)" by (cases f)
  obtain i' n' d' where st: "collect f (inmates, n, d) = (i', n', d')"
    by (cases "collect f (inmates, n, d)")
  have "n' \<le> Suc n" using st f by (cases r) (auto split: if_splits)
  moreover have "fst (snd (fold collect fs (i', n', d'))) \<le> n' + length fs" by (rule Cons.IH)
  ultimately show ?case using st by simp
qed

lemma collect_some_data:
  "\<exists>f\<in>set fs. \<not> (case snd f of Inl e \<Rightarrow> True | Inr page_inmates \<Rightarrow> page_inmates = []) \<Longrightarrow>
   fst (snd (fold collect fs (inmates, n, d))) < n + length fs"
proof (induction fs arbitrary: inmates n d)
  case Nil
  then show ?case by simp
next
  case (Cons f fs)
  obtain p r where f: "f = (p, r)" by (cases f)
  obtain i' n' d' where st: "collect f (inmates, n, d) = (i', n', d')"
    by (cases "collect f (inmates, n, d)")
  show ?case
  proof (cases "case snd f of Inl e \<Rightarrow> True | Inr page_inmates \<Rightarrow> page_inmates = []")
    case True
    then have n': "n' = Suc n" using st f by (cases r) auto
    from True Cons.prems
    have "\<exists>g\<in>set fs. \<not> (case snd g of Inl e \<Rightarrow> True | Inr page_inmates \<Rightarrow> page_inmates = [])"
      by auto
    then have "fst (snd (fold collect fs (i', n', d'))) < n' + length fs" by (rule Cons.IH)
    then show ?thesis using st n' by simp
  next
    case False
    then have n': "n' = n" using st f by (cases r) auto
    have "fst (snd (fold collect fs (i', n', d'))) \<le> n' + length fs"
      by (rule collect_empty_pages_le)
    then show ?thesis using st n' by simp
  qed
qed

lemma futures_empty_iff:
  "(\<forall>f\<in>set (map (\<lambda>page_idx. (page_idx, fetch_single_page c w page_idx)) pages).
       (case snd f of Inl e \<Rightarrow> True | Inr page_inmates \<Rightarrow> page_inmates = [])) =
   list_all (page_empty c w) pages"
  by (auto simp: list_all_iff page_empty_def)

lemma fetch_batches_stop:
  assumes "list_all (page_empty c w) [start ..< start + batch_size]"
  shows "fetch_batches c w (batch_num # rest) start inmates =
           (inmates, start, [[start ..< start + batch_size]])"
proof -
  let ?fs = "as_completed (completion w batch_num)
               (map (\<lambda>page_idx. (page_idx, fetch_single_page c w page_idx))
                    [start ..< start + batch_size])"
  have "\<forall>f\<in>set ?fs. (case snd f of Inl e \<Rightarrow> True | Inr page_inmates \<Rightarrow> page_inmates = [])"
    unfolding as_completed_set using assms futures_empty_iff [of c w] by blast
  then have "fold collect ?fs (inmates, 0, 0) = (inmates, 0 + length ?fs, 0)"
    by (rule collect_all_empty)
  moreover have "length ?fs = batch_size" by (simp add: as_completed_length)
  ultimately have "fold collect ?fs (inmates, 0, 0) = (inmates, batch_size, 0)" by simp
  then show ?thesis by (simp add: Let_def)
qed

lemma fetch_batches_continue:
  assumes "\<not> list_all (page_empty c w) [start ..< start + batch_size]"
  shows "\<exists>inmates'. fetch_batches c w (batch_num # rest) start inmates =
           (case fetch_batches c w rest (start + batch_size) inmates' of
              (result, s, batches) \<Rightarrow> (result, s, [start ..< start + batch_size] # batches))"
proof -
  let ?fs = "as_completed (completion w batch_num)
               (map (\<lambda>page_idx. (page_idx, fetch_single_page c w page_idx))
                    [start ..< start + batch_size])"
  obtain i' n' d' where st: "fold collect ?fs (inmates, 0, 0) = (i', n', d')"
    by (cases "fold collect ?fs (inmates, 0, 0)")
  have "\<exists>f\<in>set ?fs. \<not> (case snd f of Inl e \<Rightarrow> True | Inr page_inmates \<Rightarrow> page_inmates = [])"
    unfolding as_completed_set using assms futures_empty_iff [of c w] by blast
  then have "fst (snd (fold collect ?fs (inmates, 0, 0))) < 0 + length ?fs"
    by (rule collect_some_data)
  moreover have "length ?fs = batch_size" by (simp add: as_completed_length)
  ultimately have "n' \<noteq> batch_size" using st by simp
  then have "fetch_batches c w (batch_num # rest) start inmates =
           (case fetch_batches c w rest (start + batch_size) i' of
              (result, s, batches) \<Rightarrow> (result, s, [start ..< start + batch_size] # batches))"
    using st by (simp add: Let_def)
  then show ?thesis by blast
qed

lemma fetch_batches_three:
  assumes "fetch_batches c w [0, 1, 2] 1 [] = (inmates, start, batches)"
  shows "batches = map batch_pages
           [0 ..< (if batch_empty c w 0 then 1 else if batch_empty c w 1 then 2 else 3)] \<and>
         (batch_empty c w 0 \<longrightarrow> inmates = [])"
proof -
  have p0: "batch_pages 0 = [1 ..< 1 + batch_size]" by (simp add: batch_pages_def)
  have p1: "batch_pages 1 = [1 + batch_size ..< 1 + batch_size + batch_size]"
    by (simp add: batch_pages_def)
  have p2: "batch_pages 2 = [1 + batch_size + batch_size ..< 1 + batch_size + batch_size + batch_size]"
  proof -
    have "batch_size * 2 + 1 = 1 + batch_size + batch_size" by simp
    then show ?thesis by (simp only: batch_pages_def)
  qed
  have u1: "[0 ..< 1] = [0::nat]" by simp
  have u2: "[0 ..< 2] = [0::nat, 1]" by (simp add: upt_rec)
  have u3: "[0 ..< 3] = [0::nat, 1, 2]" by (simp add: upt_rec)
  show ?thesis
  proof (cases "batch_empty c w 0")
    case True
    then have "list_all (page_empty c w) [1 ..< 1 + batch_size]"
      unfolding batch_empty_def p0 .
    from fetch_batches_stop [OF this, of 0 "[1, 2]" "[]"]
    have "(inmates, start, batches) = ([], 1, [batch_pages 0])"
      unfolding p0 assms .
    then have "inmates = []" "batches = [batch_pages 0]" by simp_all
    then show ?thesis using True by (simp add: u1)
  next
    case e0: False
    then have "\<not> list_all (page_empty c w) [1 ..< 1 + batch_size]"
      unfolding batch_empty_def p0 .
    from fetch_batches_continue [OF this, of 0 "[1, 2]" "[]"] obtain i1 where
      s0: "(inmates, start, batches) =
             (case fetch_batches c w [1, 2] (1 + batch_size) i1 of
                (result, s, bs) \<Rightarrow> (result, s, batch_pages 0 # bs))"
      unfolding p0 assms by blast
    show ?thesis
    proof (cases "batch_empty c w 1")
      case True
      then have "list_all (page_empty c w) [1 + batch_size ..< 1 + batch_size + batch_size]"
        unfolding batch_empty_def p1 .
      from fetch_batches_stop [OF this, of 1 "[2]" i1]
      have "fetch_batches c w [1, 2] (1 + batch_size) i1 = (i1, 1 + batch_size, [batch_pages 1])"
        unfolding p1 .
      with s0 have "batches = [batch_pages 0, batch_pages 1]" by simp
      then show ?thesis using e0 True by (simp add: u2)
    next
      case e1: False
      then have "\<not> list_all (page_empty c w) [1 + batch_size ..< 1 + batch_size + batch_size]"
        unfolding batch_empty_def p1 .
      from fetch_batches_continue [OF this, of 1 "[2]" i1] obtain i2 where
        s1: "fetch_batches c w [1, 2] (1 + batch_size) i1 =
               (case fetch_batches c w [2] (1 + batch_size + batch_size) i2 of
                  (result, s, bs) \<Rightarrow> (result, s, batch_pages 1 # bs))"
        unfolding p1 by blast
      have s2: "snd (snd (fetch_batches c w [2] (1 + batch_size + batch_size) i2)) = [batch_pages 2]"
      proof (cases "list_all (page_empty c w)
                      [1 + batch_size + batch_size ..< 1 + batch_size + batch_size + batch_size]")
        case True
        from fetch_batches_stop [OF this, of 2 "[]" i2] show ?thesis
          unfolding p2 by (simp del: fetch_batches.simps)
      next
        case False
        from fetch_batches_continue [OF this, of 2 "[]" i2] obtain i3 where
          "fetch_batches c w [2] (1 + batch_size + batch_size) i2 =
             (case fetch_batches c w [] (1 + batch_size + batch_size + batch_size) i3 of
                (result, s, bs) \<Rightarrow> (result, s, batch_pages 2 # bs))"
          unfolding p2 by blast
        then show ?thesis by (simp del: fetch_batches.simps(2))
      qed
      obtain r2 t2 where
        "fetch_batches c w [2] (1 + batch_size + batch_size) i2 = (r2, t2, [batch_pages 2])"
        using s2 by (cases "fetch_batches c w [2] (1 + batch_size + batch_size) i2") auto
      with s0 s1 have "batches = [batch_pages 0, batch_pages 1, batch_pages 2]"
        by (simp del: fetch_batches.simps)
      then show ?thesis using e0 e1 by (simp add: u3)
    qed
  qed
qed

lemma batch_pages_length: "length (batch_pages k) = 20"
  by (simp add: batch_pages_def batch_size_def)

lemma batch_pages_first: "batch_pages 0 = [1 ..< 21]"
  by (simp add: batch_pages_def batch_size_def)

lemma fetch_single_page_session_flag:
  "fetch_single_page (c\<lparr>session_initialized := b\<rparr>) w page_idx = fetch_single_page c w page_idx"
  by (simp add: fetch_single_page_def)

lemma page_empty_session_flag:
  "page_empty (c\<lparr>session_initialized := b\<rparr>) w = page_empty c w"
  by (rule ext) (simp add: page_empty_def fetch_single_page_session_flag)

lemma batch_empty_session_flag:
  "batch_empty (c\<lparr>session_initialized := b\<rparr>) w k = batch_empty c w k"
  by (simp add: batch_empty_def page_empty_session_flag)

lemma batch_numbers: "[0 ..< max_batches] = [0, 1, 2]"
  by (simp add: max_batches_def upt_rec)

text \<open>
  C4. The acquisition loop submits pages in batches of 20 consecutive pages, batch
  \<open>k\<close> (from 0) being pages \<open>20 k + 1\<close> to \<open>20 k + 20\<close>; it runs at least one and at
  most 3 batches; after a batch that is not the third it stops exactly when every page
  of the batch was empty (raised, or returned no record); and when every page of the
  first batch is empty, that batch is the only one and the roster is empty, also as
  the result of \<open>_fetch_current_confinements\<close>.
\<close>

theorem acquisition_batches:
  "(fetch_batches c w [0 ..< max_batches] 1 [] = (inmates, start, batches) \<longrightarrow>
      batches \<noteq> [] \<and> length batches \<le> max_batches \<and> max_batches = 3 \<and>
      (\<forall>k < length batches. batches ! k = batch_pages k \<and> length (batches ! k) = 20) \<and>
      (\<forall>k. k < length batches \<and> Suc k < max_batches \<longrightarrow>
            (length batches = Suc k) = batch_empty c w k) \<and>
      (batch_empty c w 0 \<longrightarrow> batches = [[1 ..< 21]] \<and> inmates = [])) \<and>
   (current_inmates c = None \<and> main_page w = None \<and> batch_empty c w 0 \<longrightarrow>
      (\<exists>c'. fetch_current_confinements w c =
              (Inr [], c',
               (if session_initialized c then [] else [Get_main_page]) @
               map Post_confinements [1 ..< 21])))"
proof (rule conjI)
  show "fetch_batches c w [0 ..< max_batches] 1 [] = (inmates, start, batches) \<longrightarrow>
      batches \<noteq> [] \<and> length batches \<le> max_batches \<and> max_batches = 3 \<and>
      (\<forall>k < length batches. batches ! k = batch_pages k \<and> length (batches ! k) = 20) \<and>
      (\<forall>k. k < length batches \<and> Suc k < max_batches \<longrightarrow>
            (length batches = Suc k) = batch_empty c w k) \<and>
      (batch_empty c w 0 \<longrightarrow> batches = [[1 ..< 21]] \<and> inmates = [])"
  proof (rule impI, intro conjI)
  assume a: "fetch_batches c w [0 ..< max_batches] 1 [] = (inmates, start, batches)"
  define n :: nat where
    "n = (if batch_empty c w 0 then 1 else if batch_empty c w 1 then 2 else 3)"
  from a have "fetch_batches c w [0, 1, 2] 1 [] = (inmates, start, batches)"
    unfolding batch_numbers .
  from fetch_batches_three [OF this]
  have b: "batches = map batch_pages [0 ..< n]" and i: "batch_empty c w 0 \<longrightarrow> inmates = []"
    unfolding n_def by blast+
  have n13: "1 \<le> n" "n \<le> 3" by (simp_all add: n_def)
  show "batches \<noteq> []" using b n13 by simp
  show "length batches \<le> max_batches" using b n13 by (simp add: max_batches_def)
  show "max_batches = 3" by (simp add: max_batches_def)
  show "\<forall>k < length batches. batches ! k = batch_pages k \<and> length (batches ! k) = 20"
    using b by (simp add: batch_pages_length)
  show "\<forall>k. k < length batches \<and> Suc k < max_batches \<longrightarrow>
            (length batches = Suc k) = batch_empty c w k"
  proof (intro allI impI)
    fix k assume k: "k < length batches \<and> Suc k < max_batches"
    then have "k = 0 \<or> k = 1" by (auto simp: max_batches_def)
    then show "(length batches = Suc k) = batch_empty c w k"
    proof
      assume "k = 0"
      then show ?thesis using b by (simp add: n_def)
    next
      assume k1: "k = 1"
      with k b have "1 < n" by simp
      then have "\<not> batch_empty c w 0" by (auto simp: n_def split: if_splits)
      then show ?thesis using b k1 by (simp add: n_def)
    qed
  qed
  show "batch_empty c w 0 \<longrightarrow> batches = [[1 ..< 21]] \<and> inmates = []"
  proof
    assume e: "batch_empty c w 0"
    then have "n = 1" by (simp add: n_def)
    with b have "batches = [batch_pages 0]" by simp
    with i e show "batches = [[1 ..< 21]] \<and> inmates = []" by (simp add: batch_pages_first)
  qed
  qed
next
  show "current_inmates c = None \<and> main_page w = None \<and> batch_empty c w 0 \<longrightarrow>
      (\<exists>c'. fetch_current_confinements w c =
              (Inr [], c',
               (if session_initialized c then [] else [Get_main_page]) @
               map Post_confinements [1 ..< 21]))"
  proof
  assume a: "current_inmates c = None \<and> main_page w = None \<and> batch_empty c w 0"
  define c1 where "c1 = (if session_initialized c then c else c\<lparr>session_initialized := True\<rparr>)"
  have e1: "batch_empty c1 w 0" using a by (simp add: c1_def batch_empty_session_flag)
  have ens: "ensure_session_initialized w c =
               (None, c1, if session_initialized c then [] else [Get_main_page])"
    using a by (simp add: ensure_session_initialized_def c1_def)
  obtain inmates start batches where
    fb: "fetch_batches c1 w [0, 1, 2] 1 [] = (inmates, start, batches)"
    by (cases "fetch_batches c1 w [0, 1, 2] 1 []")
  from fetch_batches_three [OF fb] e1
  have "batches = [batch_pages 0]" "inmates = []" by simp_all
  with fb have fb': "fetch_batches c1 w [0 ..< max_batches] 1 [] = ([], start, [[1 ..< 21]])"
    unfolding batch_numbers by (simp add: batch_pages_first)
  have "fetch_current_confinements w c =
          (Inr [], c1\<lparr>current_inmates := Some []\<rparr>,
           (if session_initialized c then [] else [Get_main_page]) @
           map Post_confinements [1 ..< 21])"
    unfolding fetch_current_confinements_def using a ens fb'
    by (simp del: fetch_batches.simps upt_rec_numeral)
  then show "\<exists>c'. fetch_current_confinements w c =
              (Inr [], c',
               (if session_initialized c then [] else [Get_main_page]) @
               map Post_confinements [1 ..< 21])"
    by blast
  qed
qed

theorem acquisition_batches_witness:
  "\<not> batch_empty (new_client 3) small_jail 0 \<and> batch_empty (new_client 3) small_jail 1 \<and>
   length (snd (snd (fetch_batches (new_client 3) small_jail [0 ..< max_batches] 1 []))) = 2 \<and>
   batch_empty (new_client 3) empty_jail 0 \<and>
   snd (snd (fetch_batches (new_client 3) empty_jail [0 ..< max_batches] 1 [])) = [[1 ..< 21]] \<and>
   fst (fetch_batches (new_client 3) empty_jail [0 ..< max_batches] 1 []) = []"
proof -
  let ?S = "fetch_batches (new_client 3) small_jail [0 ..< max_batches] 1 []"
  let ?E = "fetch_batches (new_client 3) empty_jail [0 ..< max_batches] 1 []"
  have s0: "\<not> batch_empty (new_client 3) small_jail 0" by code_simp
  have s1: "batch_empty (new_client 3) small_jail 1" by code_simp
  have e0: "batch_empty (new_client 3) empty_jail 0" by code_simp
  have hs: "?S = (fst ?S, fst (snd ?S), snd (snd ?S))" by simp
  have he: "?E = (fst ?E, fst (snd ?E), snd (snd ?E))" by simp
  note ts = acquisition_batches
    [of "new_client 3" small_jail "fst ?S" "fst (snd ?S)" "snd (snd ?S)", THEN conjunct1, rule_format, OF hs]
  note te = acquisition_batches
    [of "new_client 3" empty_jail "fst ?E" "fst (snd ?E)" "snd (snd ?E)", THEN conjunct1, rule_format, OF he]
  have ne: "snd (snd ?S) \<noteq> []" and le: "length (snd (snd ?S)) \<le> max_batches"
    and st: "\<forall>k. k < length (snd (snd ?S)) \<and> Suc k < max_batches \<longrightarrow>
            (length (snd (snd ?S)) = Suc k) = batch_empty (new_client 3) small_jail k"
    using ts by blast+
  have l0: "0 < length (snd (snd ?S))" using ne by simp
  have m: "max_batches = 3" by (simp add: max_batches_def)
  have "length (snd (snd ?S)) \<noteq> 1" using st [rule_format, of 0] l0 s0 m by simp
  then have l1: "1 < length (snd (snd ?S))" using l0 by linarith
  have c1: "length (snd (snd ?S)) = 2" using st [rule_format, of 1] l1 s1 m by simp
  have c2: "snd (snd ?E) = [[1 ..< 21]] \<and> fst ?E = []" using te e0 by blast
  show ?thesis using s0 s1 e0 c1 c2 by blast
qed

text \<open>
  C5. A call of \<open>_fetch_current_confinements\<close> that returns a roster leaves it in the
  cache, and from then on every call, whatever the outside does, returns that roster,
  leaves the client as it is and sends no request. A call returns whenever the session
  is initialised, the handshake succeeds or the cache is filled; a call on an empty
  cache that returns has sent requests.
\<close>

theorem roster_memoized:
  "(fetch_current_confinements w c = (Inr r, c', sent) \<longrightarrow>
      current_inmates c' = Some r \<and>
      (\<forall>w'. fetch_current_confinements w' c' = (Inr r, c', []))) \<and>
   (main_page w = None \<or> session_initialized c \<or> current_inmates c \<noteq> None \<longrightarrow>
      (\<exists>r1 c1 sent1. fetch_current_confinements w c = (Inr r1, c1, sent1))) \<and>
   (current_inmates c = None \<and> fetch_current_confinements w c = (Inr r, c', sent) \<longrightarrow>
      sent \<noteq> [])"
proof (intro conjI)
  show "fetch_current_confinements w c = (Inr r, c', sent) \<longrightarrow>
      current_inmates c' = Some r \<and>
      (\<forall>w'. fetch_current_confinements w' c' = (Inr r, c', []))"
    unfolding fetch_current_confinements_def
    by (auto simp del: fetch_batches.simps split: option.splits prod.splits)
next
  show "main_page w = None \<or> session_initialized c \<or> current_inmates c \<noteq> None \<longrightarrow>
      (\<exists>r1 c1 sent1. fetch_current_confinements w c = (Inr r1, c1, sent1))"
    unfolding fetch_current_confinements_def ensure_session_initialized_def
    by (auto simp del: fetch_batches.simps split: option.splits prod.splits)
next
  show "current_inmates c = None \<and> fetch_current_confinements w c = (Inr r, c', sent) \<longrightarrow>
      sent \<noteq> []"
  proof
    assume a: "current_inmates c = None \<and> fetch_current_confinements w c = (Inr r, c', sent)"
    obtain e c1 tr where ens: "ensure_session_initialized w c = (e, c1, tr)"
      by (cases "ensure_session_initialized w c")
    obtain inmates start batches where
      fb: "fetch_batches c1 w [0 ..< max_batches] 1 [] = (inmates, start, batches)"
      by (cases "fetch_batches c1 w [0 ..< max_batches] 1 []")
    then have "fetch_batches c1 w [0, 1, 2] 1 [] = (inmates, start, batches)"
      unfolding batch_numbers .
    note three = fetch_batches_three [OF this]
    define n :: nat where
      "n = (if batch_empty c1 w 0 then 1 else if batch_empty c1 w 1 then 2 else 3)"
    have "batches = map batch_pages [0 ..< n]" using three unfolding n_def by blast
    moreover have "0 < n" by (simp add: n_def)
    ultimately have "batches = batch_pages 0 # map batch_pages [1 ..< n]"
      by (simp add: upt_rec [of 0])
    moreover have "batch_pages 0 \<noteq> []" using batch_pages_length [of 0] by auto
    ultimately have "concat batches \<noteq> []" by simp
    then show "sent \<noteq> []"
      using a ens fb unfolding fetch_current_confinements_def
      by (auto simp del: fetch_batches.simps split: option.splits)
  qed
qed

theorem roster_memoized_witness:
  "main_page small_jail = None \<and>
   (\<exists>r c' sent. fetch_current_confinements small_jail (new_client 3) = (Inr r, c', sent) \<and>
      sent \<noteq> [] \<and> current_inmates c' = Some r \<and>
      fetch_current_confinements unreachable_jail c' = (Inr r, c', []) \<and>
      fetch_current_confinements empty_jail c' = (Inr r, c', []))"
proof -
  have h: "main_page small_jail = None" by (simp add: small_jail_def)
  have n: "current_inmates (new_client 3) = None" by (simp add: new_client_def)
  from roster_memoized [of small_jail "new_client 3", THEN conjunct2, THEN conjunct1] h
  obtain r c' sent where
    f: "fetch_current_confinements small_jail (new_client 3) = (Inr r, c', sent)" by blast
  from roster_memoized [of small_jail "new_client 3" r c' sent] f n
  have "sent \<noteq> []" "current_inmates c' = Some r"
    "\<forall>w'. fetch_current_confinements w' c' = (Inr r, c', [])" by blast+
  then show ?thesis using h f by blast
qed

section \<open>Transport: properties\<close>

lemma urlopen_attempts:
  "Suc k \<le> fst (snd (urlopen r method server k remaining)) \<and>
   fst (snd (urlopen r method server k remaining)) \<le> Suc (k + remaining)"
proof (induction remaining arbitrary: k)
  case 0
  show ?case by (simp split: attempt.splits)
next
  case (Suc remaining)
  obtain out n sleeps where u: "urlopen r method server (Suc k) remaining = (out, n, sleeps)"
    by (cases "urlopen r method server (Suc k) remaining")
  have step: "Suc (Suc k) \<le> n \<and> n \<le> Suc (Suc k + remaining)"
    using Suc.IH [of "Suc k"] u by simp
  show ?case
  proof (cases "server k")
    case ConnectTimeout
    then show ?thesis using step u by simp
  next
    case ReadTimeout
    then show ?thesis using step u by simp
  next
    case (Responds resp)
    then show ?thesis using step u by simp
  qed
qed

lemma backoff_doubles:
  "get_backoff_time (retry_strategy n) (Suc k) = (if k = 0 then 0 else min 120 (2 * 2 ^ k))"
  by (simp add: get_backoff_time_def retry_strategy_def)

text \<open>
  C8 (as the code has it). The session retries a POST on timeouts and on the statuses
  429, 502, 503 and 504 (and on 413 sent with \<open>Retry-After\<close> while retries remain), not
  on 500 or any other status. It makes at least one and at most \<open>max_retries + 1\<close>
  attempts. When the first \<open>j\<close> attempts are retried ones and attempt \<open>j\<close> gets a
  response that is not, the request returns that response after \<open>j + 1\<close> attempts; when
  all \<open>max_retries + 1\<close> attempts are retried ones, the request raises, and the
  acquirer counts the page as empty. Before each new attempt the session sleeps; after
  a failure without \<open>Retry-After\<close> the sleep is nothing after the first failure and then
  4, 8, 16, ... seconds, doubling up to 120. A response with status 500 is returned
  after the first attempt, and its page is empty.
\<close>

theorem transport_retries:
  "is_retry (retry_strategy n) remaining ''POST'' resp =
     (status_code resp = 429 \<or> status_code resp = 502 \<or> status_code resp = 503 \<or>
      status_code resp = 504 \<or>
      (remaining \<noteq> 0 \<and> retry_after resp \<noteq> None \<and> status_code resp = 413)) \<and>
   retried (retry_strategy n) remaining ''POST'' ConnectTimeout \<and>
   retried (retry_strategy n) remaining ''POST'' ReadTimeout \<and>
   1 \<le> fst (snd (session_post (retry_strategy n) server)) \<and>
   fst (snd (session_post (retry_strategy n) server)) \<le> n + 1 \<and>
   ((\<forall>i < j. retried (retry_strategy n) (n - i) ''POST'' (server i)) \<and> j \<le> n \<and>
    server j = Responds resp \<and> \<not> is_retry (retry_strategy n) (n - j) ''POST'' resp \<longrightarrow>
      session_post (retry_strategy n) server =
        (Inr resp, j + 1, map (\<lambda>i. retry_sleep (retry_strategy n) (Suc i) (server i)) [0 ..< j])) \<and>
   ((\<forall>i \<le> n. retried (retry_strategy n) (n - i) ''POST'' (server i)) \<longrightarrow>
      (\<exists>e. session_post (retry_strategy n) server =
             (Inl e, n + 1, map (\<lambda>i. retry_sleep (retry_strategy n) (Suc i) (server i)) [0 ..< n]))) \<and>
   (a = ConnectTimeout \<or> a = ReadTimeout \<or> (\<exists>answer. a = Responds answer \<and> retry_after answer = None)
      \<longrightarrow> retry_sleep (retry_strategy n) (Suc k) a = (if k = 0 then 0 else min 120 (2 * 2 ^ k))) \<and>
   ((\<forall>i \<le> max_retries c.
        retried (retry_strategy (max_retries c)) (max_retries c - i) ''POST''
          (confinements w page_idx i)) \<longrightarrow>
      (\<exists>e. fetch_single_page c w page_idx = Inl e) \<and> page_empty c w page_idx) \<and>
   (server 0 = Responds resp \<and> status_code resp = 500 \<longrightarrow>
      session_post (retry_strategy n) server = (Inr resp, 1, []) \<and> parse_response resp = [])"
proof (intro conjI)
  show "is_retry (retry_strategy n) remaining ''POST'' resp =
     (status_code resp = 429 \<or> status_code resp = 502 \<or> status_code resp = 503 \<or>
      status_code resp = 504 \<or>
      (remaining \<noteq> 0 \<and> retry_after resp \<noteq> None \<and> status_code resp = 413))"
    by (simp add: is_retry_post forced_status_def)
next
  show "retried (retry_strategy n) remaining ''POST'' ConnectTimeout" by simp
next
  show "retried (retry_strategy n) remaining ''POST'' ReadTimeout"
    by (simp add: post_retryable)
next
  show "1 \<le> fst (snd (session_post (retry_strategy n) server))"
    using urlopen_attempts [of 0 "retry_strategy n" "''POST''" server "total (retry_strategy n)"]
    by (simp add: session_post_def)
next
  show "fst (snd (session_post (retry_strategy n) server)) \<le> n + 1"
    using urlopen_attempts [of 0 "retry_strategy n" "''POST''" server "total (retry_strategy n)"]
    by (simp add: session_post_def retry_strategy_def)
next
  show "(\<forall>i < j. retried (retry_strategy n) (n - i) ''POST'' (server i)) \<and> j \<le> n \<and>
    server j = Responds resp \<and> \<not> is_retry (retry_strategy n) (n - j) ''POST'' resp \<longrightarrow>
      session_post (retry_strategy n) server =
        (Inr resp, j + 1, map (\<lambda>i. retry_sleep (retry_strategy n) (Suc i) (server i)) [0 ..< j])"
  proof
    assume a: "(\<forall>i < j. retried (retry_strategy n) (n - i) ''POST'' (server i)) \<and> j \<le> n \<and>
      server j = Responds resp \<and> \<not> is_retry (retry_strategy n) (n - j) ''POST'' resp"
    have "urlopen (retry_strategy n) ''POST'' server 0 n =
            (Inr resp, Suc (0 + j),
             map (\<lambda>i. retry_sleep (retry_strategy n) (Suc i) (server i)) [0 ..< 0 + j])"
      by (rule urlopen_after_retries) (use a in simp_all)
    then show "session_post (retry_strategy n) server =
        (Inr resp, j + 1, map (\<lambda>i. retry_sleep (retry_strategy n) (Suc i) (server i)) [0 ..< j])"
      by (simp add: session_post_def retry_strategy_def)
  qed
next
  show "(\<forall>i \<le> n. retried (retry_strategy n) (n - i) ''POST'' (server i)) \<longrightarrow>
      (\<exists>e. session_post (retry_strategy n) server =
             (Inl e, n + 1, map (\<lambda>i. retry_sleep (retry_strategy n) (Suc i) (server i)) [0 ..< n]))"
  proof
    assume "\<forall>i \<le> n. retried (retry_strategy n) (n - i) ''POST'' (server i)"
    then have "\<forall>i \<le> n. retried (retry_strategy n) (n - i) ''POST'' (server (0 + i))" by simp
    from urlopen_exhausted [OF this]
    show "\<exists>e. session_post (retry_strategy n) server =
             (Inl e, n + 1, map (\<lambda>i. retry_sleep (retry_strategy n) (Suc i) (server i)) [0 ..< n])"
      by (simp add: session_post_def retry_strategy_def)
  qed
next
  show "a = ConnectTimeout \<or> a = ReadTimeout \<or> (\<exists>answer. a = Responds answer \<and> retry_after answer = None)
      \<longrightarrow> retry_sleep (retry_strategy n) (Suc k) a = (if k = 0 then 0 else min 120 (2 * 2 ^ k))"
    by (auto simp: backoff_doubles)
next
  show "(\<forall>i \<le> max_retries c.
        retried (retry_strategy (max_retries c)) (max_retries c - i) ''POST''
          (confinements w page_idx i)) \<longrightarrow>
      (\<exists>e. fetch_single_page c w page_idx = Inl e) \<and> page_empty c w page_idx"
  proof
    assume "\<forall>i \<le> max_retries c.
        retried (retry_strategy (max_retries c)) (max_retries c - i) ''POST''
          (confinements w page_idx i)"
    then have "\<forall>i \<le> max_retries c.
        retried (retry_strategy (max_retries c)) (max_retries c - i) ''POST''
          (confinements w page_idx (0 + i))"
      by simp
    from urlopen_exhausted [OF this] obtain e where
      "fst (session_post (retry_strategy (max_retries c)) (confinements w page_idx)) = Inl e"
      by (auto simp: session_post_def retry_strategy_def)
    then have "fetch_single_page c w page_idx = Inl e"
      by (simp add: fetch_single_page_def)
    then show "(\<exists>e. fetch_single_page c w page_idx = Inl e) \<and> page_empty c w page_idx"
      by (simp add: page_empty_def)
  qed
next
  show "server 0 = Responds resp \<and> status_code resp = 500 \<longrightarrow>
      session_post (retry_strategy n) server = (Inr resp, 1, []) \<and> parse_response resp = []"
  proof
    assume a: "server 0 = Responds resp \<and> status_code resp = 500"
    then have nr: "\<not> is_retry (retry_strategy n) (n - 0) ''POST'' resp"
      by (simp add: is_retry_post forced_status_def)
    have "urlopen (retry_strategy n) ''POST'' server 0 n =
            (Inr resp, Suc (0 + 0),
             map (\<lambda>i. retry_sleep (retry_strategy n) (Suc i) (server i)) [0 ..< 0 + 0])"
      by (rule urlopen_after_retries) (use a nr in simp_all)
    then show "session_post (retry_strategy n) server = (Inr resp, 1, []) \<and> parse_response resp = []"
      using a by (simp add: session_post_def retry_strategy_def parse_response_def)
  qed
qed

theorem transport_retries_witness:
  "session_post (retry_strategy 3) slow_page =
     (Inr (ok_response [Card (named_card ''AVERY ARRON ADAMS'')]), 3, [0, 4]) \<and>
   (\<exists>e. session_post (retry_strategy 3) always_503 = (Inl e, 4, [0, 4, 8])) \<and>
   (\<exists>e. session_post (retry_strategy 6) always_timeout = (Inl e, 7, [0, 4, 8, 16, 32, 64])) \<and>
   page_empty (new_client 3) small_jail 3 \<and>
   session_post (retry_strategy 3) always_500 = (Inr (status_response 500), 1, [])"
proof -
  have s1: "(\<forall>i < 2. retried (retry_strategy 3) (3 - i) ''POST'' (slow_page i)) \<and> (2::nat) \<le> 3 \<and>
      slow_page 2 = Responds (ok_response [Card (named_card ''AVERY ARRON ADAMS'')]) \<and>
      \<not> is_retry (retry_strategy 3) (3 - 2) ''POST''
          (ok_response [Card (named_card ''AVERY ARRON ADAMS'')])"
    by (simp add: slow_page_def small_jail_def post_retryable is_retry_post forced_status_def
                  ok_response_def)
  have s2: "\<forall>i \<le> 3. retried (retry_strategy 3) (3 - i) ''POST'' (always_503 i)"
    by (simp add: always_503_def status_response_def is_retry_post forced_status_def)
  have s3: "\<forall>i \<le> 6. retried (retry_strategy 6) (6 - i) ''POST'' (always_timeout i)"
    by (simp add: always_timeout_def post_retryable)
  have s4: "\<forall>i \<le> max_retries (new_client 3).
        retried (retry_strategy (max_retries (new_client 3))) (max_retries (new_client 3) - i)
          ''POST'' (confinements small_jail 3 i)"
    by (simp add: small_jail_def always_503_def status_response_def is_retry_post
                  forced_status_def)
  have s5: "always_500 0 = Responds (status_response 500) \<and>
            status_code (status_response 500) = 500"
    by (simp add: always_500_def status_response_def)
  have e1: "map (\<lambda>i. retry_sleep (retry_strategy 3) (Suc i) (slow_page i)) [0 ..< 2] = [0, 4]"
    by code_simp
  have e2: "map (\<lambda>i. retry_sleep (retry_strategy 3) (Suc i) (always_503 i)) [0 ..< 3] = [0, 4, 8]"
    by code_simp
  have e3: "map (\<lambda>i. retry_sleep (retry_strategy 6) (Suc i) (always_timeout i)) [0 ..< 6] =
              [0, 4, 8, 16, 32, 64]"
    by code_simp
  have c1: "session_post (retry_strategy 3) slow_page =
     (Inr (ok_response [Card (named_card ''AVERY ARRON ADAMS'')]), 3, [0, 4])"
    using transport_retries
      [of 3 0 "ok_response [Card (named_card ''AVERY ARRON ADAMS'')]" slow_page 2
          ConnectTimeout 0 "new_client 3" small_jail 3] s1
    unfolding e1 by simp
  have c2: "\<exists>e. session_post (retry_strategy 3) always_503 = (Inl e, 4, [0, 4, 8])"
    using transport_retries
      [of 3 0 "status_response 500" always_503 0 ConnectTimeout 0 "new_client 3" small_jail 3] s2
    unfolding e2 by simp
  have c3: "\<exists>e. session_post (retry_strategy 6) always_timeout = (Inl e, 7, [0, 4, 8, 16, 32, 64])"
    using transport_retries
      [of 6 0 "status_response 500" always_timeout 0 ConnectTimeout 0 "new_client 3" small_jail 3] s3
    unfolding e3 by simp
  have c4: "page_empty (new_client 3) small_jail 3"
    using transport_retries
      [of 3 0 "status_response 500" always_503 0 ConnectTimeout 0 "new_client 3" small_jail 3] s4
    by blast
  have c5: "session_post (retry_strategy 3) always_500 = (Inr (status_response 500), 1, [])"
    using transport_retries
      [of 3 0 "status_response 500" always_500 0 ConnectTimeout 0 "new_client 3" small_jail 3] s5
    by blast
  show ?thesis using c1 c2 c3 c4 c5 by blast
qed

text \<open>
  C8 as stated fails for the 5xx status 500: the server answers 500 to every attempt,
  the response is not one that is retried, and the request returns it after one
  attempt.
\<close>

theorem status_500_not_retried_counterexample:
  "\<not> is_retry (retry_strategy 3) 3 ''POST'' (status_response 500) \<and>
   session_post (retry_strategy 3) always_500 = (Inr (status_response 500), 1, [])"
  by code_simp

section \<open>Custody matcher: properties\<close>

lemma first_match_two:
  "first_match inmates [k1, k2] =
     (case map_of inmates k1 of
        Some inmate \<Rightarrow> Some inmate
      | None \<Rightarrow> map_of inmates k2)"
  by (simp split: option.splits)

text \<open>
  C1. When the acquisition returns a roster, \<open>check_custody\<close> probes it with the key
  of last, first and middle name and then with the key of last and first name. The
  record under the first of the two keys that is present gives a verdict with
  \<open>in_custody\<close> true and the record's booking number, booking date, charges, bond
  amount and mugshot reference; when neither key is present the verdict has
  \<open>in_custody\<close> false and no booking detail. The subject's name and case data pass
  through.
\<close>

theorem check_custody_lookup:
  "fetch_current_confinements w c = (Inr inmates, c', sent) \<and>
   search_name d = (first, middle, lastn) \<and>
   check_custody w c d = (verdict, c'', sent') \<longrightarrow>
     c'' = c' \<and> sent' = sent \<and>
     defendant_name verdict = defendant_full_name d \<and>
     custody_result.matter_number verdict = defendant.matter_number d \<and>
     custody_result.case_number verdict = defendant.case_number d \<and>
     error_message verdict = None \<and>
     (\<forall>inmate.
        map_of inmates (normalize_name lastn first middle) = Some inmate \<or>
        (map_of inmates (normalize_name lastn first middle) = None \<and>
         map_of inmates (normalize_name lastn first []) = Some inmate) \<longrightarrow>
          in_custody verdict \<and>
          custody_result.booking_number verdict = inmate_data.booking_number inmate \<and>
          custody_result.booking_date verdict = inmate_data.booking_date inmate \<and>
          charges_at_booking verdict = inmate_data.charges inmate \<and>
          custody_result.bond_amount verdict = inmate_data.bond_amount inmate \<and>
          custody_result.mugshot_url verdict = inmate_data.mugshot_url inmate) \<and>
     (map_of inmates (normalize_name lastn first middle) = None \<and>
      map_of inmates (normalize_name lastn first []) = None \<longrightarrow>
          \<not> in_custody verdict \<and>
          custody_result.booking_number verdict = None \<and>
          custody_result.booking_date verdict = None \<and>
          custody_location verdict = None \<and>
          charges_at_booking verdict = None \<and>
          custody_result.bond_amount verdict = None \<and>
          custody_result.mugshot_url verdict = None)"
proof
  assume a: "fetch_current_confinements w c = (Inr inmates, c', sent) \<and>
   search_name d = (first, middle, lastn) \<and>
   check_custody w c d = (verdict, c'', sent')"
  let ?k1 = "normalize_name lastn first middle"
  let ?k2 = "normalize_name lastn first []"
  have cc: "check_custody w c d =
     (case first_match inmates [?k1, ?k2] of
        Some inmate \<Rightarrow>
          (\<lparr> defendant_name = defendant_full_name d,
             custody_result.matter_number = defendant.matter_number d,
             custody_result.case_number = defendant.case_number d,
             in_custody = True,
             custody_result.booking_number = inmate_data.booking_number inmate,
             custody_result.booking_date = inmate_data.booking_date inmate,
             custody_location = Some ''Dorchester County Detention Center'',
             charges_at_booking = inmate_data.charges inmate,
             custody_result.bond_amount = inmate_data.bond_amount inmate,
             custody_result.mugshot_url = inmate_data.mugshot_url inmate,
             error_message = None \<rparr>, c', sent)
      | None \<Rightarrow>
          (\<lparr> defendant_name = defendant_full_name d,
             custody_result.matter_number = defendant.matter_number d,
             custody_result.case_number = defendant.case_number d,
             in_custody = False,
             custody_result.booking_number = None,
             custody_result.booking_date = None,
             custody_location = None,
             charges_at_booking = None,
             custody_result.bond_amount = None,
             custody_result.mugshot_url = None,
             error_message = None \<rparr>, c', sent))"
    using a unfolding check_custody_def by (simp del: first_match.simps)
  show "c'' = c' \<and> sent' = sent \<and>
     defendant_name verdict = defendant_full_name d \<and>
     custody_result.matter_number verdict = defendant.matter_number d \<and>
     custody_result.case_number verdict = defendant.case_number d \<and>
     error_message verdict = None \<and>
     (\<forall>inmate.
        map_of inmates ?k1 = Some inmate \<or>
        (map_of inmates ?k1 = None \<and> map_of inmates ?k2 = Some inmate) \<longrightarrow>
          in_custody verdict \<and>
          custody_result.booking_number verdict = inmate_data.booking_number inmate \<and>
          custody_result.booking_date verdict = inmate_data.booking_date inmate \<and>
          charges_at_booking verdict = inmate_data.charges inmate \<and>
          custody_result.bond_amount verdict = inmate_data.bond_amount inmate \<and>
          custody_result.mugshot_url verdict = inmate_data.mugshot_url inmate) \<and>
     (map_of inmates ?k1 = None \<and> map_of inmates ?k2 = None \<longrightarrow>
          \<not> in_custody verdict \<and>
          custody_result.booking_number verdict = None \<and>
          custody_result.booking_date verdict = None \<and>
          custody_location verdict = None \<and>
          charges_at_booking verdict = None \<and>
          custody_result.bond_amount verdict = None \<and>
          custody_result.mugshot_url verdict = None)"
  proof (cases "first_match inmates [?k1, ?k2]")
    case None
    then have n: "map_of inmates ?k1 = None" "map_of inmates ?k2 = None"
      unfolding first_match_two by (auto split: option.splits)
    from cc None a have "verdict =
          \<lparr> defendant_name = defendant_full_name d,
             custody_result.matter_number = defendant.matter_number d,
             custody_result.case_number = defendant.case_number d,
             in_custody = False,
             custody_result.booking_number = None,
             custody_result.booking_date = None,
             custody_location = None,
             charges_at_booking = None,
             custody_result.bond_amount = None,
             custody_result.mugshot_url = None,
             error_message = None \<rparr>" "c'' = c'" "sent' = sent"
      by simp_all
    then show ?thesis using n by simp
  next
    case (Some found)
    then have f: "\<And>inmate. map_of inmates ?k1 = Some inmate \<or>
        (map_of inmates ?k1 = None \<and> map_of inmates ?k2 = Some inmate) \<Longrightarrow> inmate = found"
      and nn: "\<not> (map_of inmates ?k1 = None \<and> map_of inmates ?k2 = None)"
      unfolding first_match_two by (auto split: option.splits)
    from cc Some a have v: "verdict =
          \<lparr> defendant_name = defendant_full_name d,
             custody_result.matter_number = defendant.matter_number d,
             custody_result.case_number = defendant.case_number d,
             in_custody = True,
             custody_result.booking_number = inmate_data.booking_number found,
             custody_result.booking_date = inmate_data.booking_date found,
             custody_location = Some ''Dorchester County Detention Center'',
             charges_at_booking = inmate_data.charges found,
             custody_result.bond_amount = inmate_data.bond_amount found,
             custody_result.mugshot_url = inmate_data.mugshot_url found,
             error_message = None \<rparr>" and cs: "c'' = c'" "sent' = sent"
      by simp_all
    show ?thesis using f nn cs unfolding v by auto
  qed
qed

lemma fetch_current_confinements_returns:
  "main_page w = None \<Longrightarrow>
   \<exists>inmates c' sent. fetch_current_confinements w c = (Inr inmates, c', sent)"
  unfolding fetch_current_confinements_def ensure_session_initialized_def
  by (auto simp del: fetch_batches.simps split: option.splits prod.splits)

theorem check_custody_lookup_witness:
  "search_name john_smith = (''John'', ''Q'', ''Smith'') \<and>
   map_of (projr (fst (fetch_current_confinements small_jail (new_client 3))))
      (normalize_name ''Smith'' ''John'' ''Q'') = None \<and>
   (\<exists>inmate.
      map_of (projr (fst (fetch_current_confinements small_jail (new_client 3))))
        (normalize_name ''Smith'' ''John'' []) = Some inmate \<and>
      inmate_data.full_name inmate = ''John Quincy Smith'' \<and>
      in_custody (fst (check_custody small_jail (new_client 3) john_smith)) \<and>
      custody_result.booking_number (fst (check_custody small_jail (new_client 3) john_smith)) =
        inmate_data.booking_number inmate \<and>
      charges_at_booking (fst (check_custody small_jail (new_client 3) john_smith)) =
        inmate_data.charges inmate)"
proof -
  let ?X = "fetch_current_confinements small_jail (new_client 3)"
  have mp: "main_page small_jail = None" by (simp add: small_jail_def)
  from fetch_current_confinements_returns [OF mp, of "new_client 3"]
  obtain inmates c' sent where f: "?X = (Inr inmates, c', sent)" by blast
  obtain verdict c'' sent' where
    cc: "check_custody small_jail (new_client 3) john_smith = (verdict, c'', sent')"
    by (cases "check_custody small_jail (new_client 3) john_smith")
  have sn: "search_name john_smith = (''John'', ''Q'', ''Smith'')"
    by (simp add: search_name_def john_smith_def)
  have pr: "projr (fst ?X) = inmates" using f by simp
  have e1: "map_of (projr (fst ?X)) (normalize_name ''Smith'' ''John'' ''Q'') = None"
    by code_simp
  have e2: "map_option inmate_data.full_name
              (map_of (projr (fst ?X)) (normalize_name ''Smith'' ''John'' [])) =
            Some ''John Quincy Smith''"
    by code_simp
  then obtain inmate where
    i: "map_of (projr (fst ?X)) (normalize_name ''Smith'' ''John'' []) = Some inmate"
       "inmate_data.full_name inmate = ''John Quincy Smith''"
    by auto
  have m1: "map_of inmates (normalize_name ''Smith'' ''John'' ''Q'') = None"
    using e1 unfolding pr .
  have m2: "map_of inmates (normalize_name ''Smith'' ''John'' []) = Some inmate"
    using i(1) unfolding pr .
  from check_custody_lookup
    [of small_jail "new_client 3" inmates c' sent john_smith "''John''" "''Q''" "''Smith''"
        verdict c'' sent'] f sn cc m1 m2
  have "in_custody verdict \<and>
        custody_result.booking_number verdict = inmate_data.booking_number inmate \<and>
        charges_at_booking verdict = inmate_data.charges inmate"
    by blast
  then have "in_custody (fst (check_custody small_jail (new_client 3) john_smith)) \<and>
      custody_result.booking_number (fst (check_custody small_jail (new_client 3) john_smith)) =
        inmate_data.booking_number inmate \<and>
      charges_at_booking (fst (check_custody small_jail (new_client 3) john_smith)) =
        inmate_data.charges inmate"
    unfolding cc by simp
  then show ?thesis using sn e1 i by blast
qed

lemma check_custody_for_all_length:
  "length (fst (check_custody_for_all worlds i c ds)) = length ds"
  by (induction ds arbitrary: i c) (simp_all add: split_beta)

lemma fetch_raises_iff:
  "(fst (fetch_current_confinements w c) = Inl e) =
   (current_inmates c = None \<and> \<not> session_initialized c \<and> main_page w = Some e)"
  unfolding fetch_current_confinements_def ensure_session_initialized_def
  by (auto simp del: fetch_batches.simps split: option.splits prod.splits)

text \<open>
  C2. \<open>check_custody\<close> gives a verdict for every subject. When the acquisition raises
  (which it does exactly when the cache is empty, the session is not initialised and
  the handshake raises), the verdict has \<open>in_custody\<close> false, no booking detail and
  the error message \<open>"Error: "\<close> followed by the text of the exception, which is
  not empty. \<open>check_custody_for_all\<close> gives as many verdicts as it is given subjects.
\<close>

theorem check_custody_never_raises:
  "(fst (fetch_current_confinements w c) = Inl e \<and>
    check_custody w c d = (verdict, c', sent) \<longrightarrow>
      \<not> in_custody verdict \<and>
      error_message verdict = Some (''Error: '' @ exception_str e) \<and>
      (\<exists>msg. error_message verdict = Some msg \<and> msg \<noteq> []) \<and>
      custody_result.booking_number verdict = None \<and>
      custody_result.booking_date verdict = None \<and>
      defendant_name verdict = defendant_full_name d) \<and>
   (fst (fetch_current_confinements w c) = Inl e) =
     (current_inmates c = None \<and> \<not> session_initialized c \<and> main_page w = Some e) \<and>
   (\<exists>v c1 sent1. check_custody w c d = (v, c1, sent1)) \<and>
   length (fst (check_custody_for_all worlds i c ds)) = length ds"
proof (intro conjI)
  show "fst (fetch_current_confinements w c) = Inl e \<and>
    check_custody w c d = (verdict, c', sent) \<longrightarrow>
      \<not> in_custody verdict \<and>
      error_message verdict = Some (''Error: '' @ exception_str e) \<and>
      (\<exists>msg. error_message verdict = Some msg \<and> msg \<noteq> []) \<and>
      custody_result.booking_number verdict = None \<and>
      custody_result.booking_date verdict = None \<and>
      defendant_name verdict = defendant_full_name d"
  proof
    assume a: "fst (fetch_current_confinements w c) = Inl e \<and>
      check_custody w c d = (verdict, c', sent)"
    obtain c1 sent1 where f: "fetch_current_confinements w c = (Inl e, c1, sent1)"
      using a by (cases "fetch_current_confinements w c") auto
    have "verdict =
            \<lparr> defendant_name = defendant_full_name d,
              custody_result.matter_number = defendant.matter_number d,
              custody_result.case_number = defendant.case_number d,
              in_custody = False,
              custody_result.booking_number = None,
              custody_result.booking_date = None,
              custody_location = None,
              charges_at_booking = None,
              custody_result.bond_amount = None,
              custody_result.mugshot_url = None,
              error_message = Some (''Error: '' @ exception_str e) \<rparr>"
      using a f unfolding check_custody_def by (simp add: split_beta)
    then show "\<not> in_custody verdict \<and>
      error_message verdict = Some (''Error: '' @ exception_str e) \<and>
      (\<exists>msg. error_message verdict = Some msg \<and> msg \<noteq> []) \<and>
      custody_result.booking_number verdict = None \<and>
      custody_result.booking_date verdict = None \<and>
      defendant_name verdict = defendant_full_name d"
      by simp
  qed
next
  show "(fst (fetch_current_confinements w c) = Inl e) =
     (current_inmates c = None \<and> \<not> session_initialized c \<and> main_page w = Some e)"
    by (rule fetch_raises_iff)
next
  show "\<exists>v c1 sent1. check_custody w c d = (v, c1, sent1)"
    by (cases "check_custody w c d") blast
next
  show "length (fst (check_custody_for_all worlds i c ds)) = length ds"
    by (rule check_custody_for_all_length)
qed

theorem check_custody_never_raises_witness:
  "fst (fetch_current_confinements unreachable_jail (new_client 3)) =
     Inl (PyException ''Connection refused'') \<and>
   \<not> in_custody (fst (check_custody unreachable_jail (new_client 3) john_smith)) \<and>
   error_message (fst (check_custody unreachable_jail (new_client 3) john_smith)) =
     Some ''Error: Connection refused'' \<and>
   length (fst (check_custody_for_all
                  (\<lambda>i. if i = 0 then unreachable_jail else small_jail) 0 (new_client 3)
                  [john_smith, avery_adams, jane_doe])) = 3"
proof -
  have h: "fst (fetch_current_confinements unreachable_jail (new_client 3)) =
             Inl (PyException ''Connection refused'')"
    by (simp add: fetch_current_confinements_def ensure_session_initialized_def
                  unreachable_jail_def new_client_def)
  obtain verdict c' sent where
    cc: "check_custody unreachable_jail (new_client 3) john_smith = (verdict, c', sent)"
    by (cases "check_custody unreachable_jail (new_client 3) john_smith")
  note inst = check_custody_never_raises
    [of unreachable_jail "new_client 3" "PyException ''Connection refused''" john_smith
        verdict c' sent "\<lambda>i. if i = 0 then unreachable_jail else small_jail" 0
        "[john_smith, avery_adams, jane_doe]"]
  have "\<not> in_custody verdict \<and>
        error_message verdict = Some (''Error: '' @ exception_str (PyException ''Connection refused''))"
    using inst h cc by blast
  then have c1: "\<not> in_custody (fst (check_custody unreachable_jail (new_client 3) john_smith)) \<and>
      error_message (fst (check_custody unreachable_jail (new_client 3) john_smith)) =
        Some ''Error: Connection refused''"
    unfolding cc by simp
  have c2: "length (fst (check_custody_for_all
                  (\<lambda>i. if i = 0 then unreachable_jail else small_jail) 0 (new_client 3)
                  [john_smith, avery_adams, jane_doe])) = 3"
    using inst by simp
  show ?thesis using h c1 c2 by blast
qed

section \<open>Rate limiter: properties\<close>

lemma respect_rate_limit_not_before:
  "now \<le> last_request_time (respect_rate_limit now late l)"
  by (simp add: respect_rate_limit_def Let_def)

lemma respect_rate_limit_spacing:
  "0 < last_request_time l \<Longrightarrow> last_request_time l \<le> now \<Longrightarrow>
   last_request_time l + delay_seconds l \<le> last_request_time (respect_rate_limit now late l)"
  by (simp add: respect_rate_limit_def Let_def)

lemma respect_rate_limit_delay:
  "delay_seconds (respect_rate_limit now late l) = delay_seconds l"
  by (simp add: respect_rate_limit_def Let_def)

lemma serve_turns_length: "length (serve_turns l clock ts) = length ts"
  by (induction ts arbitrary: l clock) (simp_all add: Let_def)

lemma serve_turns_returns:
  "i < length ts \<Longrightarrow> fst (serve_turns l clock ts ! i) \<le> snd (serve_turns l clock ts ! i)"
proof (induction ts arbitrary: l clock i)
  case Nil
  then show ?case by simp
next
  case (Cons t ts)
  then show ?case by (cases i) (simp_all add: Let_def)
qed

lemma serve_turns_spacing:
  assumes "0 < clock" and "last_request_time l \<le> clock" and "Suc i < length ts"
  shows "fst (serve_turns l clock ts ! i) + delay_seconds l \<le> fst (serve_turns l clock ts ! Suc i)"
  using assms
proof (induction ts arbitrary: l clock i)
  case Nil
  then show ?case by simp
next
  case (Cons t ts)
  define l' where "l' = respect_rate_limit (clock + int (waited t)) (overslept t) l"
  define granted where "granted = last_request_time l'"
  have g: "clock \<le> granted"
    using respect_rate_limit_not_before [of "clock + int (waited t)" "overslept t" l]
    by (simp add: granted_def l'_def)
  have pos: "0 < granted" using g Cons.prems(1) by simp
  have d: "delay_seconds l' = delay_seconds l" by (simp add: l'_def respect_rate_limit_delay)
  have unfold: "serve_turns l clock (t # ts) =
                  (granted, granted + int (return_delay t)) # serve_turns l' granted ts"
    by (simp add: Let_def l'_def granted_def)
  show ?case
  proof (cases i)
    case 0
    from Cons.prems(3) obtain t2 ts2 where ts: "ts = t2 # ts2" by (cases ts) auto
    define g2 where
      "g2 = last_request_time
              (respect_rate_limit (granted + int (waited t2)) (overslept t2) l')"
    have sp: "last_request_time l' + delay_seconds l' \<le> g2"
      unfolding g2_def
      by (rule respect_rate_limit_spacing) (use pos in \<open>simp_all add: granted_def\<close>)
    have "fst (serve_turns l' granted ts ! 0) = g2"
      unfolding ts g2_def by (simp add: Let_def)
    then have a2: "fst (serve_turns l clock (t # ts) ! Suc 0) = g2"
      unfolding unfold by simp
    have a1: "fst (serve_turns l clock (t # ts) ! 0) = granted"
      unfolding unfold by simp
    show ?thesis unfolding 0 a1 a2 using sp d by (simp add: granted_def)
  next
    case (Suc i')
    have "fst (serve_turns l' granted ts ! i') + delay_seconds l' \<le>
          fst (serve_turns l' granted ts ! Suc i')"
      by (rule Cons.IH) (use pos Cons.prems(3) Suc in \<open>simp_all add: granted_def\<close>)
    then show ?thesis unfolding unfold Suc by (simp add: d)
  qed
qed

text \<open>
  C9 (as the code has it). The whole body of \<open>_respect_rate_limit\<close> runs under the one
  lock, so the calls of the workers take effect one after the other. Taken in the order
  in which they hold the lock, on a clock that is positive and does not go back, any
  two consecutive grant times written to \<open>last_request_time\<close> are at least the delay
  apart. Every call gets its grant, and returns no earlier than that.
\<close>

theorem grants_serialized:
  "length (serve_turns l clock ts) = length ts \<and>
   (i < length ts \<longrightarrow> fst (serve_turns l clock ts ! i) \<le> snd (serve_turns l clock ts ! i)) \<and>
   (0 < clock \<and> last_request_time l \<le> clock \<and> Suc i < length ts \<longrightarrow>
      fst (serve_turns l clock ts ! i) + delay_seconds l \<le> fst (serve_turns l clock ts ! Suc i))"
  using serve_turns_length [of l clock ts] serve_turns_returns [of i ts l clock]
    serve_turns_spacing [of clock l i ts]
  by blast

theorem grants_serialized_witness:
  "map fst (serve_turns ten_tick_limiter 100 three_turns) = [100, 110, 136] \<and>
   fst (serve_turns ten_tick_limiter 100 three_turns ! 0) + delay_seconds ten_tick_limiter
     \<le> fst (serve_turns ten_tick_limiter 100 three_turns ! 1) \<and>
   fst (serve_turns ten_tick_limiter 100 three_turns ! 1) + delay_seconds ten_tick_limiter
     \<le> fst (serve_turns ten_tick_limiter 100 three_turns ! 2)"
proof -
  have h: "(0::int) < 100" "last_request_time ten_tick_limiter \<le> 100"
    by (simp_all add: ten_tick_limiter_def)
  have n: "Suc 0 < length three_turns" "Suc 1 < length three_turns"
    by (simp_all add: three_turns_def)
  have v: "map fst (serve_turns ten_tick_limiter 100 three_turns) = [100, 110, 136]"
    by code_simp
  have c0: "fst (serve_turns ten_tick_limiter 100 three_turns ! 0) + delay_seconds ten_tick_limiter
     \<le> fst (serve_turns ten_tick_limiter 100 three_turns ! Suc 0)"
    using grants_serialized [of ten_tick_limiter 100 three_turns 0] h n(1) by blast
  have c1: "fst (serve_turns ten_tick_limiter 100 three_turns ! 1) + delay_seconds ten_tick_limiter
     \<le> fst (serve_turns ten_tick_limiter 100 three_turns ! Suc 1)"
    using grants_serialized [of ten_tick_limiter 100 three_turns 1] h n(2) by blast
  have two: "Suc 1 = 2" by simp
  show ?thesis using v c0 c1 unfolding two by simp
qed

text \<open>
  C9 as stated fails for the returns: with a delay of 10 ticks, the first call is
  granted at 100 and returns at 105, the second is granted at 110 and returns at once;
  the two returns are 5 ticks apart.
\<close>

theorem returns_closer_than_delay_counterexample:
  "serve_turns ten_tick_limiter 100 three_turns = [(100, 105), (110, 110), (136, 138)] \<and>
   snd (serve_turns ten_tick_limiter 100 three_turns ! 1) -
     snd (serve_turns ten_tick_limiter 100 three_turns ! 0) < delay_seconds ten_tick_limiter"
  by code_simp

end
